theory Spec2Isabelle
  imports Main "HOL-Library.Sublist" "HOL-Library.Multiset"
begin

section \<open>The image-elements gatherer\<close>

text \<open>
  A shallow embedding of \<^verbatim>\<open>lighthouse-core/gather/gatherers/image-elements.js\<close>.
  JavaScript strings are modelled as \<^typ>\<open>string\<close> (lists of 8-bit characters), numbers
  that the gatherer only carries around or subtracts (pixel sizes, byte sizes, status
  codes) as \<^typ>\<open>int\<close>, \<^verbatim>\<open>undefined\<close> as \<^const>\<open>None\<close>. Every rejected promise is a
  value \<open>Inl err\<close>; the browser behind the protocol connection is an explicit
  environment that answers each call and is threaded through the gatherer.
\<close>

subsection \<open>Regular expressions\<close>

text \<open>
  The three regular expressions of the source are run by a matcher based on
  derivatives. An atom is a predicate on one character, which covers a literal
  character, a literal under the \<^verbatim>\<open>i\<close> flag and the dot.
\<close>

datatype regex =
    Never
  | Empty
  | Atom "char \<Rightarrow> bool"
  | Seq regex regex
  | Alt regex regex
  | Star regex

fun acceptsEmpty :: "regex \<Rightarrow> bool" where
  "acceptsEmpty Never = False"
| "acceptsEmpty Empty = True"
| "acceptsEmpty (Atom p) = False"
| "acceptsEmpty (Seq r s) = (acceptsEmpty r \<and> acceptsEmpty s)"
| "acceptsEmpty (Alt r s) = (acceptsEmpty r \<or> acceptsEmpty s)"
| "acceptsEmpty (Star r) = True"

fun deriv :: "char \<Rightarrow> regex \<Rightarrow> regex" where
  "deriv c Never = Never"
| "deriv c Empty = Never"
| "deriv c (Atom p) = (if p c then Empty else Never)"
| "deriv c (Seq r s) =
     (if acceptsEmpty r then Alt (Seq (deriv c r) s) (deriv c s) else Seq (deriv c r) s)"
| "deriv c (Alt r s) = Alt (deriv c r) (deriv c s)"
| "deriv c (Star r) = Seq (deriv c r) (Star r)"

fun matches :: "regex \<Rightarrow> string \<Rightarrow> bool" where
  "matches r [] = acceptsEmpty r"
| "matches r (c # cs) = matches (deriv c r) cs"

text \<open>
  Under the \<^verbatim>\<open>i\<close> flag two characters match when their canonical (upper-case) forms are
  equal; a character outside ASCII never canonicalises to an ASCII one, so only the
  twenty-six letters are folded.
\<close>

definition toUpperAscii :: "char \<Rightarrow> char" where
  "toUpperAscii c =
     (case map_of (zip ''abcdefghijklmnopqrstuvwxyz'' ''ABCDEFGHIJKLMNOPQRSTUVWXYZ'') c of
        Some u \<Rightarrow> u
      | None \<Rightarrow> c)"

definition lineTerminator :: "char \<Rightarrow> bool" where
  "lineTerminator c = (c = CHR 0x0A \<or> c = CHR 0x0D)"

text \<open>
  The dot matches every character but a line terminator. Of the four line terminators
  of JavaScript only line feed and carriage return are 8-bit characters.
\<close>

definition dot :: regex where
  "dot = Atom (\<lambda>c. \<not> lineTerminator c)"

definition anyChar :: regex where
  "anyChar = Atom (\<lambda>c. True)"

fun literal :: "bool \<Rightarrow> string \<Rightarrow> regex" where
  "literal ignoreCase [] = Empty"
| "literal ignoreCase (c # cs) =
     Seq (Atom (\<lambda>x. if ignoreCase then toUpperAscii x = toUpperAscii c else x = c))
         (literal ignoreCase cs)"

text \<open>
  \<^verbatim>\<open>RegExp.prototype.test\<close>: the pattern may match anywhere in the input unless it is
  anchored by \<^verbatim>\<open>^\<close> (first flag) or \<^verbatim>\<open>$\<close> (second flag).
\<close>

definition regexTest :: "bool \<Rightarrow> regex \<Rightarrow> bool \<Rightarrow> string \<Rightarrow> bool" where
  "regexTest anchoredStart r anchoredEnd s =
     matches (Seq (if anchoredStart then Empty else Star anyChar)
               (Seq r (if anchoredEnd then Empty else Star anyChar))) s"

text \<open>\<^verbatim>\<open>/^image/\<close>\<close>

definition reImage :: "string \<Rightarrow> bool" where
  "reImage = regexTest True (literal False ''image'') False"

text \<open>\<^verbatim>\<open>/\.(avif|webp)$/i\<close>\<close>

definition reAvifWebp :: "string \<Rightarrow> bool" where
  "reAvifWebp =
     regexTest False
       (Seq (literal True ''.'') (Alt (literal True ''avif'') (literal True ''webp''))) True"

text \<open>\<^verbatim>\<open>/No node.*found/\<close>\<close>

definition reNoNodeFound :: "string \<Rightarrow> bool" where
  "reNoNodeFound =
     regexTest False
       (Seq (literal False ''No node'') (Seq (Star dot) (literal False ''found''))) False"

subsection \<open>Network records and their index\<close>

record NetworkRequest =
  url :: string
  mimeType :: string
  finished :: bool
  statusCode :: int
  resourceSize :: int

text \<open>
  \<^verbatim>\<open>indexedNetworkRecords\<close> is a plain object keyed by URL, built by \<^verbatim>\<open>reduce\<close> over
  \<^verbatim>\<open>loadData.networkRecords\<close>.
\<close>

type_synonym NetworkIndex = "string \<rightharpoonup> NetworkRequest"

definition isImage :: "NetworkRequest \<Rightarrow> bool" where
  "isImage record = (reImage (mimeType record) \<or> reAvifWebp (url record))"

text \<open>The callback of the \<^verbatim>\<open>reduce\<close>.\<close>

definition indexRecord :: "NetworkIndex \<Rightarrow> NetworkRequest \<Rightarrow> NetworkIndex" where
  "indexRecord map' record =
     (if isImage record \<and> finished record \<and> statusCode record = 200
      then map'(url record \<mapsto> record)
      else map')"

definition indexedNetworkRecords :: "NetworkRequest list \<Rightarrow> NetworkIndex" where
  "indexedNetworkRecords networkRecords = foldl indexRecord Map.empty networkRecords"

text \<open>
  \<^verbatim>\<open>indexedNetworkRecords[src] || {}\<close>: the record, or an empty object. Both are
  objects, hence truthy; the fields of the empty object read as \<^verbatim>\<open>undefined\<close>.
\<close>

datatype recordOrEmpty = Record NetworkRequest | EmptyObject

fun orEmptyObject :: "NetworkRequest option \<Rightarrow> recordOrEmpty" where
  "orEmptyObject (Some r) = Record r"
| "orEmptyObject None = EmptyObject"

fun truthyObject :: "recordOrEmpty \<Rightarrow> bool" where
  "truthyObject (Record r) = True"
| "truthyObject EmptyObject = True"

fun getMimeType :: "recordOrEmpty \<Rightarrow> string option" where
  "getMimeType (Record r) = Some (mimeType r)"
| "getMimeType EmptyObject = None"

fun getResourceSize :: "recordOrEmpty \<Rightarrow> int option" where
  "getResourceSize (Record r) = Some (resourceSize r)"
| "getResourceSize EmptyObject = None"

subsection \<open>Image elements\<close>

record ClientRect =
  top :: int
  bottom :: int
  left :: int
  right :: int

record NodeDetails =
  devtoolsNodePath :: string
  lhId :: string

datatype 'a nullable = Null | NotNull 'a

text \<open>
  The artifact record. Its field \<^verbatim>\<open>mimeType\<close> is \<open>elementMimeType\<close> here (the name
  is taken by the network record) and \<^verbatim>\<open>_privateCssSizing\<close> is \<open>privateCssSizing\<close>.
  A field that is \<^verbatim>\<open>undefined\<close> or missing is \<^const>\<open>None\<close>.
\<close>

record ImageElement =
  src :: string
  srcset :: string
  displayedWidth :: int
  displayedHeight :: int
  clientRect :: ClientRect
  naturalWidth :: "int option"
  naturalHeight :: "int option"
  attributeWidth :: string
  attributeHeight :: string
  cssWidth :: "string option"
  cssHeight :: "string option"
  privateCssSizing :: "(string nullable \<times> string nullable) option"
  cssComputedPosition :: string
  isCss :: bool
  isPicture :: bool
  loading :: "string option"
  cssComputedObjectFit :: string
  cssComputedImageRendering :: string
  isInShadowDOM :: bool
  node :: NodeDetails
  elementMimeType :: "string option"

text \<open>
  What \<^verbatim>\<open>getHTMLImages\<close> reads from a live DOM element: its own properties, the tag
  name of its parent element (if it has one) and the computed styles involved.
\<close>

record Element =
  el_localName :: string
  el_parentTagName :: "string option"
  el_currentSrc :: string
  el_srcset :: string
  el_width :: int
  el_height :: int
  el_clientRect :: ClientRect
  el_naturalWidth :: int
  el_naturalHeight :: int
  el_widthAttribute :: "string option"
  el_heightAttribute :: "string option"
  el_loading :: string
  el_computedPosition :: string
  el_parentComputedPosition :: string
  el_computedObjectFit :: string
  el_computedImageRendering :: string
  el_rootIsShadowRoot :: bool
  el_nodeDetails :: NodeDetails

text \<open>\<^verbatim>\<open>!!element.parentElement && element.parentElement.tagName === 'PICTURE'\<close>\<close>

definition parentIsPicture :: "Element \<Rightarrow> bool" where
  "parentIsPicture element =
     (case el_parentTagName element of None \<Rightarrow> False | Some t \<Rightarrow> t = ''PICTURE'')"

definition getPosition :: "Element \<Rightarrow> string" where
  "getPosition element =
     (if parentIsPicture element then el_parentComputedPosition element
      else el_computedPosition element)"

text \<open>\<^verbatim>\<open>element.getAttribute(name) || ''\<close>\<close>

definition attributeOrEmpty :: "string option \<Rightarrow> string" where
  "attributeOrEmpty a = (case a of None \<Rightarrow> [] | Some v \<Rightarrow> v)"

text \<open>The record that \<^verbatim>\<open>getHTMLImages\<close> builds for one \<^verbatim>\<open>img\<close> element.\<close>

definition htmlImage :: "Element \<Rightarrow> ImageElement" where
  "htmlImage element =
     (let isPicture = parentIsPicture element;
          canTrustNaturalDimensions = (\<not> isPicture \<and> el_srcset element = [])
      in \<lparr> src = el_currentSrc element,
           srcset = el_srcset element,
           displayedWidth = el_width element,
           displayedHeight = el_height element,
           clientRect = el_clientRect element,
           naturalWidth =
             (if canTrustNaturalDimensions then Some (el_naturalWidth element) else None),
           naturalHeight =
             (if canTrustNaturalDimensions then Some (el_naturalHeight element) else None),
           attributeWidth = attributeOrEmpty (el_widthAttribute element),
           attributeHeight = attributeOrEmpty (el_heightAttribute element),
           cssWidth = None,
           cssHeight = None,
           privateCssSizing = None,
           cssComputedPosition = getPosition element,
           isCss = False,
           isPicture = isPicture,
           loading = Some (el_loading element),
           cssComputedObjectFit = el_computedObjectFit element,
           cssComputedImageRendering = el_computedImageRendering element,
           isInShadowDOM = el_rootIsShadowRoot element,
           node = el_nodeDetails element,
           elementMimeType = None \<rparr>)"

definition getHTMLImages :: "Element list \<Rightarrow> ImageElement list" where
  "getHTMLImages allElements =
     map htmlImage (filter (\<lambda>element. el_localName element = ''img'') allElements)"

subsection \<open>Effective CSS sizing\<close>

record CSSProperty =
  propName :: string
  propValue :: string

record CSSStyle =
  cssProperties :: "CSSProperty list option"

text \<open>
  Modelled from the spec: a matched rule is the style of \<^verbatim>\<open>rule\<close> together with the
  specificity of its matching selectors. The specificity is computed by the selector
  comparator of \<^verbatim>\<open>seo/font-size.js\<close>, which is not among the sources, so it is
  part of the data here.
\<close>

record RuleMatch =
  ruleStyle :: CSSStyle
  specificity :: nat

record MatchedStylesForNode =
  attributesStyle :: "CSSStyle option"
  inlineStyle :: "CSSStyle option"
  matchedCSSRules :: "RuleMatch list option"

text \<open>A string is falsy when it is \<^verbatim>\<open>undefined\<close> or empty.\<close>

fun truthy :: "string option \<Rightarrow> bool" where
  "truthy None = False"
| "truthy (Some v) = (v \<noteq> [])"

definition findSizeDeclaration :: "CSSStyle option \<Rightarrow> string \<Rightarrow> string option" where
  "findSizeDeclaration rule property =
     (case rule of
        None \<Rightarrow> None
      | Some r \<Rightarrow>
          (case cssProperties r of
             None \<Rightarrow> None
           | Some props \<Rightarrow>
               (case find (\<lambda>p. propName p = property) props of
                  None \<Rightarrow> None
                | Some definedProp \<Rightarrow> Some (propValue definedProp))))"

text \<open>
  Modelled from the spec: one step of the search that
  \<^verbatim>\<open>FontSize.findMostSpecificMatchedCSSRule\<close> makes. A rule with a declaration of
  interest replaces the best rule found so far unless that one is strictly more
  specific, so of two equally specific rules the later one wins.
\<close>

definition moreSpecific :: "(CSSStyle \<Rightarrow> bool) \<Rightarrow> RuleMatch option \<Rightarrow> RuleMatch \<Rightarrow> RuleMatch option"
  where
  "moreSpecific isDeclarationOfInterest best m =
     (if isDeclarationOfInterest (ruleStyle m) \<and>
         (case best of None \<Rightarrow> True | Some b \<Rightarrow> specificity b \<le> specificity m)
      then Some m else best)"

text \<open>
  Modelled from the spec: \<^verbatim>\<open>FontSize.findMostSpecificMatchedCSSRule\<close> lives in
  \<^verbatim>\<open>seo/font-size.js\<close>, which is not among the sources. It returns the style of the
  most specific matched stylesheet rule that has a declaration of interest, ties broken
  by source order (the later rule wins), and nothing when no rule has one. A missing
  rule list counts as an empty one.
\<close>

definition findMostSpecificMatchedCSSRule ::
  "RuleMatch list option \<Rightarrow> (CSSStyle \<Rightarrow> bool) \<Rightarrow> CSSStyle option" where
  "findMostSpecificMatchedCSSRule matchedRules isDeclarationOfInterest =
     map_option ruleStyle
       (foldl (moreSpecific isDeclarationOfInterest) None
          (case matchedRules of None \<Rightarrow> [] | Some rs \<Rightarrow> rs))"

definition findMostSpecificCSSRule :: "RuleMatch list option \<Rightarrow> string \<Rightarrow> string option" where
  "findMostSpecificCSSRule matchedRules property =
     (let isDeclarationofInterest =
            (\<lambda>declaration. truthy (findSizeDeclaration (Some declaration) property))
      in case findMostSpecificMatchedCSSRule matchedRules isDeclarationofInterest of
           None \<Rightarrow> None
         | Some rule \<Rightarrow> findSizeDeclaration (Some rule) property)"

definition getEffectiveSizingRule :: "MatchedStylesForNode \<Rightarrow> string \<Rightarrow> string nullable" where
  "getEffectiveSizingRule matched property =
     (let inlineRule = findSizeDeclaration (inlineStyle matched) property in
      if truthy inlineRule then NotNull (the inlineRule)
      else
        let attributeRule = findSizeDeclaration (attributesStyle matched) property in
        if truthy attributeRule then NotNull (the attributeRule)
        else
          let matchedRule = findMostSpecificCSSRule (matchedCSSRules matched) property in
          if truthy matchedRule then NotNull (the matchedRule)
          else Null)"

text \<open>\<^verbatim>\<open>width === null ? undefined : width\<close>\<close>

fun nullToUndefined :: "'a nullable \<Rightarrow> 'a option" where
  "nullToUndefined Null = None"
| "nullToUndefined (NotNull v) = Some v"

subsection \<open>The driver and the state of a pass\<close>

datatype jsError = Error (message: string)

text \<open>What the gatherer asks of the driver, in the order it asks.\<close>

datatype protocolCall =
    Evaluate_collectImageElementInfo
  | DOM_enable
  | CSS_enable
  | DOM_getDocument
  | DOM_pushNodeByPathToFrontend string
  | CSS_getMatchedStylesForNode nat
  | SetNextProtocolTimeout nat
  | Evaluate_determineNaturalSize string
  | DOM_disable
  | CSS_disable

text \<open>
  The browser is an environment of some type \<open>'d\<close>. Each call is answered from the
  current environment with a result or a rejection, and leaves a new environment.
  \<open>timerFired\<close> tells whether the five-second timer armed by \<^verbatim>\<open>afterPass\<close> has run
  its callback by the time control returns from a call: timer callbacks run only while
  the gatherer is suspended in an \<^verbatim>\<open>await\<close> on the protocol. The answer to the scan
  is the list that \<^verbatim>\<open>collectImageElementInfo\<close> builds inside the page; the answer to
  a probe is the pair that \<^verbatim>\<open>determineNaturalSize\<close> resolves with, and a rejection
  when the image fails to load or the call times out.
\<close>

record 'd Driver =
  acknowledge :: "protocolCall \<Rightarrow> 'd \<Rightarrow> (jsError + unit) \<times> 'd"
  pushNodeByPathToFrontend :: "string \<Rightarrow> 'd \<Rightarrow> (jsError + nat) \<times> 'd"
  getMatchedStylesForNode :: "nat \<Rightarrow> 'd \<Rightarrow> (jsError + MatchedStylesForNode) \<times> 'd"
  collectImageElementInfo :: "'d \<Rightarrow> (jsError + ImageElement list) \<times> 'd"
  determineNaturalSize :: "string \<Rightarrow> 'd \<Rightarrow> (jsError + int \<times> int) \<times> 'd"
  timerFired :: "'d \<Rightarrow> bool"

text \<open>
  The state of the gatherer: the environment, the calls issued so far, the
  \<^verbatim>\<open>_naturalSizeCache\<close> of the instance, the two variables of \<^verbatim>\<open>afterPass\<close> that its
  timer callback and loop share, and the warnings logged.
\<close>

record 'd Gatherer =
  env :: 'd
  issued :: "protocolCall list"
  naturalSizeCache :: "(string \<times> int \<times> int) list"
  reachedGatheringBudget :: bool
  skippedCount :: nat
  warnings :: "(nat \<times> nat) list"

text \<open>
  One awaited call: it is recorded, answered by the environment, and the timer callback
  may have set \<^verbatim>\<open>reachedGatheringBudget\<close> when it returns.
\<close>

definition await :: "'d Driver \<Rightarrow> protocolCall \<Rightarrow> ('d \<Rightarrow> 'r \<times> 'd) \<Rightarrow> 'd Gatherer \<Rightarrow> 'r \<times> 'd Gatherer"
  where
  "await driver call respond g =
     (case respond (env g) of
        (r, e) \<Rightarrow>
          (r, g\<lparr> env := e,
                 issued := issued g @ [call],
                 reachedGatheringBudget := (reachedGatheringBudget g \<or> timerFired driver e) \<rparr>))"

definition sendCommand :: "'d Driver \<Rightarrow> protocolCall \<Rightarrow> 'd Gatherer \<Rightarrow> (jsError + unit) \<times> 'd Gatherer"
  where
  "sendCommand driver call = await driver call (acknowledge driver call)"

text \<open>
  \<^verbatim>\<open>Promise.all\<close> over commands: every command is sent, in order, before the first
  answer is awaited; the whole is rejected when one of them is.
\<close>

fun promiseAll :: "'d Driver \<Rightarrow> protocolCall list \<Rightarrow> 'd Gatherer \<Rightarrow> (jsError + unit) \<times> 'd Gatherer"
  where
  "promiseAll driver [] g = (Inr (), g)"
| "promiseAll driver (call # calls) g =
     (case sendCommand driver call g of
        (r, g1) \<Rightarrow>
          (case promiseAll driver calls g1 of
             (rs, g2) \<Rightarrow> ((case r of Inl err \<Rightarrow> Inl err | Inr u \<Rightarrow> rs), g2)))"

text \<open>\<^verbatim>\<open>driver.setNextProtocolTimeout\<close> is synchronous and has no answer.\<close>

definition setNextProtocolTimeout :: "nat \<Rightarrow> 'd Gatherer \<Rightarrow> 'd Gatherer" where
  "setNextProtocolTimeout ms g = g\<lparr> issued := issued g @ [SetNextProtocolTimeout ms] \<rparr>"

subsection \<open>The natural-size resolver\<close>

text \<open>\<^verbatim>\<open>Object.assign(element, size)\<close>\<close>

definition assignSize :: "ImageElement \<Rightarrow> int \<times> int \<Rightarrow> ImageElement" where
  "assignSize element size' =
     element\<lparr> naturalWidth := Some (fst size'), naturalHeight := Some (snd size') \<rparr>"

text \<open>\<^verbatim>\<open>Map.prototype.set\<close> on the cache.\<close>

definition cacheSet :: "string \<Rightarrow> int \<times> int \<Rightarrow> (string \<times> int \<times> int) list \<Rightarrow> (string \<times> int \<times> int) list"
  where
  "cacheSet u size' cache =
     (if u \<in> fst ` set cache then map (\<lambda>(k, v). if k = u then (k, size') else (k, v)) cache
      else cache @ [(u, size')])"

definition fetchElementWithSizeInformation ::
  "'d Driver \<Rightarrow> ImageElement \<Rightarrow> 'd Gatherer \<Rightarrow> ImageElement \<times> 'd Gatherer" where
  "fetchElementWithSizeInformation driver element g =
     (let url = src element;
          element1 = (case map_of (naturalSizeCache g) url of
                        Some cached \<Rightarrow> assignSize element cached
                      | None \<Rightarrow> element);
          g1 = setNextProtocolTimeout 250 g
      in case await driver (Evaluate_determineNaturalSize url)
                (determineNaturalSize driver url) g1 of
           (Inr size', g2) \<Rightarrow>
             (assignSize element1 size',
              g2\<lparr> naturalSizeCache := cacheSet url size' (naturalSizeCache g2) \<rparr>)
         | (Inl err, g2) \<Rightarrow> (element1, g2))"

subsection \<open>The CSS sizing resolver\<close>

text \<open>The \<^verbatim>\<open>catch\<close> block of \<^verbatim>\<open>fetchSourceRules\<close>.\<close>

definition catchNoNode ::
  "jsError \<Rightarrow> ImageElement \<Rightarrow> 'd Gatherer \<Rightarrow> (jsError + ImageElement) \<times> 'd Gatherer" where
  "catchNoNode err element g =
     (if reNoNodeFound (message err) then (Inr element, g) else (Inl err, g))"

definition fetchSourceRules ::
  "'d Driver \<Rightarrow> string \<Rightarrow> ImageElement \<Rightarrow> 'd Gatherer \<Rightarrow> (jsError + ImageElement) \<times> 'd Gatherer"
  where
  "fetchSourceRules driver path element g =
     (case await driver (DOM_pushNodeByPathToFrontend path)
             (pushNodeByPathToFrontend driver path) g of
        (Inl err, g1) \<Rightarrow> catchNoNode err element g1
      | (Inr nodeId, g1) \<Rightarrow>
          if nodeId = 0 then (Inr element, g1)
          else
            (case await driver (CSS_getMatchedStylesForNode nodeId)
                    (getMatchedStylesForNode driver nodeId) g1 of
               (Inl err, g2) \<Rightarrow> catchNoNode err element g2
             | (Inr matchedRules, g2) \<Rightarrow>
                 (let width = getEffectiveSizingRule matchedRules ''width'';
                      height = getEffectiveSizingRule matchedRules ''height''
                  in (Inr (element\<lparr> cssWidth := nullToUndefined width,
                                    cssHeight := nullToUndefined height,
                                    privateCssSizing := Some (width, height) \<rparr>), g2))))"

subsection \<open>Sorting\<close>

text \<open>
  The comparator subtracts two \<^verbatim>\<open>resourceSize\<close> fields. A field of the empty object is
  \<^verbatim>\<open>undefined\<close>, and a difference with \<^verbatim>\<open>undefined\<close> is \<^verbatim>\<open>NaN\<close>.
\<close>

datatype jsNumber = NaN | Num int

fun jsMinus :: "int option \<Rightarrow> int option \<Rightarrow> jsNumber" where
  "jsMinus (Some a) (Some b) = Num (a - b)"
| "jsMinus a b = NaN"

definition comparefn :: "NetworkIndex \<Rightarrow> ImageElement \<Rightarrow> ImageElement \<Rightarrow> jsNumber" where
  "comparefn index a b =
     (let aRecord = orEmptyObject (index (src a));
          bRecord = orEmptyObject (index (src b))
      in jsMinus (getResourceSize bRecord) (getResourceSize aRecord))"

text \<open>
  \<^verbatim>\<open>Array.prototype.sort\<close> reads a \<^verbatim>\<open>NaN\<close> from the comparator as \<open>0\<close>.
\<close>

fun sortCompare :: "jsNumber \<Rightarrow> int" where
  "sortCompare NaN = 0"
| "sortCompare (Num v) = v"

text \<open>
  The method itself belongs to the engine. The language fixes the order it produces only
  where the comparator is a consistent ordering of the elements, and this comparator is
  not one as soon as an element without a record stands among elements whose records
  differ in size: the order is then the engine's choice. The method is therefore a
  parameter \<open>arraySort\<close> of the sort step and of the pass, and what is proved of them
  is proved for every engine.
\<close>

type_synonym arraySortMethod =
  "(ImageElement \<Rightarrow> ImageElement \<Rightarrow> jsNumber) \<Rightarrow> ImageElement list \<Rightarrow> ImageElement list"

definition sortElements ::
  "arraySortMethod \<Rightarrow> NetworkIndex \<Rightarrow> ImageElement list \<Rightarrow> ImageElement list" where
  "sortElements arraySort index elements = arraySort (comparefn index) elements"

subsection \<open>The enrichment loop and the pass\<close>

text \<open>
  The body of the \<^verbatim>\<open>for\<close> loop of \<^verbatim>\<open>afterPass\<close>, for one element, and the loop.
  An error thrown in the body ends the loop and the pass.
\<close>

definition enrichElement ::
  "'d Driver \<Rightarrow> NetworkIndex \<Rightarrow> ImageElement \<Rightarrow> 'd Gatherer \<Rightarrow> (jsError + ImageElement) \<times> 'd Gatherer"
  where
  "enrichElement driver index element0 g =
     (let networkRecord = orEmptyObject (index (src element0));
          element = element0\<lparr> elementMimeType := getMimeType networkRecord \<rparr>
      in if reachedGatheringBudget g
         then (Inr element, g\<lparr> skippedCount := skippedCount g + 1 \<rparr>)
         else
           (case (if \<not> isInShadowDOM element \<and> \<not> isCss element
                  then fetchSourceRules driver (devtoolsNodePath (node element)) element g
                  else (Inr element, g)) of
              (Inl err, g1) \<Rightarrow> (Inl err, g1)
            | (Inr element1, g1) \<Rightarrow>
                if (isPicture element1 \<or> isCss element1 \<or> srcset element1 \<noteq> []) \<and>
                   truthyObject networkRecord
                then (case fetchElementWithSizeInformation driver element1 g1 of
                        (element2, g2) \<Rightarrow> (Inr element2, g2))
                else (Inr element1, g1)))"

fun enrichElements ::
  "'d Driver \<Rightarrow> NetworkIndex \<Rightarrow> ImageElement list \<Rightarrow> 'd Gatherer \<Rightarrow>
     (jsError + ImageElement list) \<times> 'd Gatherer" where
  "enrichElements driver index [] g = (Inr [], g)"
| "enrichElements driver index (element # rest) g =
     (case enrichElement driver index element g of
        (Inl err, g1) \<Rightarrow> (Inl err, g1)
      | (Inr element1, g1) \<Rightarrow>
          (case enrichElements driver index rest g1 of
             (Inl err, g2) \<Rightarrow> (Inl err, g2)
           | (Inr rest1, g2) \<Rightarrow> (Inr (element1 # rest1), g2)))"

definition afterPass ::
  "arraySortMethod \<Rightarrow> 'd Driver \<Rightarrow> NetworkRequest list \<Rightarrow> 'd Gatherer \<Rightarrow>
     (jsError + ImageElement list) \<times> 'd Gatherer"
  where
  "afterPass arraySort driver networkRecords g =
     (let index = indexedNetworkRecords networkRecords in
      case await driver Evaluate_collectImageElementInfo (collectImageElementInfo driver) g of
        (Inl err, g1) \<Rightarrow> (Inl err, g1)
      | (Inr elements, g1) \<Rightarrow>
          (case promiseAll driver [DOM_enable, CSS_enable, DOM_getDocument] g1 of
             (Inl err, g2) \<Rightarrow> (Inl err, g2)
           | (Inr u, g2) \<Rightarrow>
               (let sorted = sortElements arraySort index elements;
                    g3 = g2\<lparr> reachedGatheringBudget := False, skippedCount := 0 \<rparr>
                in case enrichElements driver index sorted g3 of
                     (Inl err, g4) \<Rightarrow> (Inl err, g4)
                   | (Inr enriched, g4) \<Rightarrow>
                       (let g5 = (if reachedGatheringBudget g4
                                  then g4\<lparr> warnings :=
                                             warnings g4 @ [(skippedCount g4, length enriched)] \<rparr>
                                  else g4)
                        in case promiseAll driver [DOM_disable, CSS_disable] g5 of
                             (Inl err, g6) \<Rightarrow> (Inl err, g6)
                           | (Inr u, g6) \<Rightarrow> (Inr enriched, g6)))))"

section \<open>Notions used in the statements\<close>

text \<open>
  The language of a regular expression, observations on the calls a run has issued,
  the two halves of the loop body, the number of elements whose enrichment begins, and
  the readings of the specification that the code is compared with.
\<close>

text \<open>The language of a regular expression.\<close>

inductive_set star :: "string set \<Rightarrow> string set" for L :: "string set" where
  star_empty: "[] \<in> star L"
| star_step: "u \<in> L \<Longrightarrow> v \<in> star L \<Longrightarrow> u @ v \<in> star L"

fun lang :: "regex \<Rightarrow> string set" where
  "lang Never = {}"
| "lang Empty = {[]}"
| "lang (Atom p) = {[c] | c. p c}"
| "lang (Seq r s) = {u @ v | u v. u \<in> lang r \<and> v \<in> lang s}"
| "lang (Alt r s) = lang r \<union> lang s"
| "lang (Star r) = star (lang r)"

text \<open>The URLs of the in-page probes among a list of calls, in order.\<close>

fun probedUrl :: "protocolCall \<Rightarrow> string option" where
  "probedUrl (Evaluate_determineNaturalSize u) = Some u"
| "probedUrl call = None"

definition probes :: "protocolCall list \<Rightarrow> string list" where
  "probes calls = List.map_filter probedUrl calls"

text \<open>
  The calls that belong to one element: those of the CSS sizing resolver, and the
  timeout and the probe of the natural-size resolver.
\<close>

fun sourceRulesCall :: "protocolCall \<Rightarrow> bool" where
  "sourceRulesCall (DOM_pushNodeByPathToFrontend p) = True"
| "sourceRulesCall (CSS_getMatchedStylesForNode n) = True"
| "sourceRulesCall call = False"

fun perElementCall :: "protocolCall \<Rightarrow> bool" where
  "perElementCall (DOM_pushNodeByPathToFrontend p) = True"
| "perElementCall (CSS_getMatchedStylesForNode n) = True"
| "perElementCall (SetNextProtocolTimeout ms) = True"
| "perElementCall (Evaluate_determineNaturalSize u) = True"
| "perElementCall call = False"

text \<open>The calls issued between two states of a run.\<close>

definition callsSince :: "'d Gatherer \<Rightarrow> 'd Gatherer \<Rightarrow> protocolCall list" where
  "callsSince g g' = drop (length (issued g)) (issued g')"

text \<open>
  An element with the MIME type of its matching record attached (or none when no record
  matches), which is what the loop does to every element first.
\<close>

definition withMimeType :: "NetworkIndex \<Rightarrow> ImageElement \<Rightarrow> ImageElement" where
  "withMimeType index element =
     element\<lparr> elementMimeType := map_option mimeType (index (src element)) \<rparr>"

text \<open>The second half of the loop body, after the CSS sizing resolver.\<close>

definition naturalSizeStep ::
  "'d Driver \<Rightarrow> (jsError + ImageElement) \<times> 'd Gatherer \<Rightarrow> (jsError + ImageElement) \<times> 'd Gatherer"
  where
  "naturalSizeStep driver rg =
     (case rg of
        (Inl err, g1) \<Rightarrow> (Inl err, g1)
      | (Inr element1, g1) \<Rightarrow>
          if isPicture element1 \<or> isCss element1 \<or> srcset element1 \<noteq> []
          then (case fetchElementWithSizeInformation driver element1 g1 of
                  (element2, g2) \<Rightarrow> (Inr element2, g2))
          else (Inr element1, g1))"

text \<open>The first half of the loop body: the MIME type and the CSS sizing resolver.\<close>

definition sourceRulesStep ::
  "'d Driver \<Rightarrow> NetworkIndex \<Rightarrow> ImageElement \<Rightarrow> 'd Gatherer \<Rightarrow> (jsError + ImageElement) \<times> 'd Gatherer"
  where
  "sourceRulesStep driver index element g =
     (if \<not> isInShadowDOM element \<and> \<not> isCss element
      then fetchSourceRules driver (devtoolsNodePath (node element)) (withMimeType index element) g
      else (Inr (withMimeType index element), g))"

text \<open>
  The number of elements whose enrichment begins: those for which the loop finds the
  budget flag unset when it reaches them.
\<close>

fun begun :: "'d Driver \<Rightarrow> NetworkIndex \<Rightarrow> ImageElement list \<Rightarrow> 'd Gatherer \<Rightarrow> nat" where
  "begun driver index [] g = 0"
| "begun driver index (element # rest) g =
     (if reachedGatheringBudget g then 0 else 1) +
     (case enrichElement driver index element g of
        (Inl err, g1) \<Rightarrow> 0
      | (Inr element1, g1) \<Rightarrow> begun driver index rest g1)"

text \<open>The state in which the loop starts, and the warning logged after it.\<close>

definition loopStart :: "'d Gatherer \<Rightarrow> 'd Gatherer" where
  "loopStart g = g\<lparr> reachedGatheringBudget := False, skippedCount := 0 \<rparr>"

definition logSkipped :: "nat \<Rightarrow> 'd Gatherer \<Rightarrow> 'd Gatherer" where
  "logSkipped n g =
     (if reachedGatheringBudget g
      then g\<lparr> warnings := warnings g @ [(skippedCount g, n)] \<rparr>
      else g)"

text \<open>
  A style declares a property with value \<open>v\<close> when the first declaration of that name
  among its properties has the value \<open>v\<close> and \<open>v\<close> is not the empty string: the
  source tests what \<^verbatim>\<open>findSizeDeclaration\<close> returns for truthiness.
\<close>

definition declaresProperty :: "CSSStyle option \<Rightarrow> string \<Rightarrow> string \<Rightarrow> bool" where
  "declaresProperty style property v =
     (findSizeDeclaration style property = Some v \<and> v \<noteq> [])"

text \<open>The matched stylesheet rules of a response, none when the list is missing.\<close>

definition ruleList :: "MatchedStylesForNode \<Rightarrow> RuleMatch list" where
  "ruleList matched = (case matchedCSSRules matched of None \<Rightarrow> [] | Some rs \<Rightarrow> rs)"

text \<open>
  Eligibility as the specification words it: the MIME type begins with \<^verbatim>\<open>image/\<close>, or
  the path of the URL (the URL up to its query string or fragment) ends in one of the two
  extensions.
\<close>

definition urlPath :: "string \<Rightarrow> string" where
  "urlPath u = takeWhile (\<lambda>c. c \<noteq> CHR ''?'' \<and> c \<noteq> CHR ''#'') u"

definition eligibleAsSpecified :: "NetworkRequest \<Rightarrow> bool" where
  "eligibleAsSpecified record =
     (finished record \<and> statusCode record = 200 \<and>
      (prefix ''image/'' (mimeType record) \<or>
       suffix ''.AVIF'' (map toUpperAscii (urlPath (url record))) \<or>
       suffix ''.WEBP'' (map toUpperAscii (urlPath (url record)))))"

text \<open>The size the specification sorts by: that of the matching record, or \<open>0\<close>.\<close>

definition resourceSizeOrZero :: "NetworkIndex \<Rightarrow> ImageElement \<Rightarrow> int" where
  "resourceSizeOrZero index element =
     (case index (src element) of None \<Rightarrow> 0 | Some r \<Rightarrow> resourceSize r)"

text \<open>
  \<^verbatim>\<open>Array.prototype.sort\<close> is stable: elements that the comparator calls equal keep
  their order. All that the statements use of it is the case of an array in which the
  comparator calls every two elements equal, which a stable sort leaves as it is.
\<close>

definition keepsTies :: "(('a \<Rightarrow> 'a \<Rightarrow> jsNumber) \<Rightarrow> 'a list \<Rightarrow> 'a list) \<Rightarrow> bool" where
  "keepsTies arraySort \<longleftrightarrow>
     (\<forall>cmp xs. (\<forall>x \<in> set xs. \<forall>y \<in> set xs. sortCompare (cmp x y) = 0) \<longrightarrow>
        arraySort cmp xs = xs)"

section \<open>A scripted browser and sample pages\<close>

text \<open>
  The environment counts the calls answered so far, and the timer fires once \<open>budget\<close>
  calls have been answered. The node path \<^verbatim>\<open>gone\<close> is a node that has left the
  document, the path \<^verbatim>\<open>closed\<close> makes the connection fail, and the image
  \<^verbatim>\<open>http://e/broken.png\<close> does not decode.
\<close>

definition sampleStyles :: MatchedStylesForNode where
  "sampleStyles =
     \<lparr> attributesStyle = Some \<lparr> cssProperties = Some [\<lparr> propName = ''width'', propValue = ''10'' \<rparr>] \<rparr>,
       inlineStyle = None,
       matchedCSSRules =
         Some [\<lparr> ruleStyle = \<lparr> cssProperties = Some [\<lparr> propName = ''height'', propValue = ''auto'' \<rparr>] \<rparr>,
                 specificity = 10 \<rparr>] \<rparr>"

definition scriptedBrowser :: "nat \<Rightarrow> ImageElement list \<Rightarrow> nat Driver" where
  "scriptedBrowser budget elements =
     \<lparr> acknowledge = (\<lambda>call t. (Inr (), Suc t)),
       pushNodeByPathToFrontend =
         (\<lambda>path t. (if path = ''gone'' then Inl (Error ''No node with given id found'')
                     else if path = ''closed'' then Inl (Error ''Target closed'')
                     else Inr 7, Suc t)),
       getMatchedStylesForNode = (\<lambda>nodeId t. (Inr sampleStyles, Suc t)),
       collectImageElementInfo = (\<lambda>t. (Inr elements, Suc t)),
       determineNaturalSize =
         (\<lambda>u t. (if u = ''http://e/broken.png''
                  then Inl (Error ''determineNaturalSize failed img load'')
                  else Inr (640, 480), Suc t)),
       timerFired = (\<lambda>t. budget \<le> t) \<rparr>"

definition freshGatherer :: "nat Gatherer" where
  "freshGatherer =
     \<lparr> env = 0, issued = [], naturalSizeCache = [], reachedGatheringBudget = False,
       skippedCount = 0, warnings = [] \<rparr>"

text \<open>
  The sample passes are run with a stable insertion sort in the place of the engine's
  method: each element is put before the first already placed element that the
  comparator orders after it.
\<close>

fun insertSorted :: "('a \<Rightarrow> 'a \<Rightarrow> jsNumber) \<Rightarrow> 'a \<Rightarrow> 'a list \<Rightarrow> 'a list" where
  "insertSorted cmp x [] = [x]"
| "insertSorted cmp x (y # ys) =
     (if sortCompare (cmp x y) < 0 then x # y # ys else y # insertSorted cmp x ys)"

definition insertionSort :: "('a \<Rightarrow> 'a \<Rightarrow> jsNumber) \<Rightarrow> 'a list \<Rightarrow> 'a list" where
  "insertionSort cmp xs = foldl (\<lambda>placed x. insertSorted cmp x placed) [] xs"

definition sampleImage :: "string \<Rightarrow> string \<Rightarrow> ImageElement" where
  "sampleImage u path =
     \<lparr> src = u, srcset = [], displayedWidth = 10, displayedHeight = 10,
       clientRect = \<lparr> top = 0, bottom = 10, left = 0, right = 10 \<rparr>,
       naturalWidth = Some 32, naturalHeight = Some 24,
       attributeWidth = ''10'', attributeHeight = ''10'',
       cssWidth = None, cssHeight = None, privateCssSizing = None,
       cssComputedPosition = ''static'', isCss = False, isPicture = False,
       loading = Some ''auto'', cssComputedObjectFit = ''fill'',
       cssComputedImageRendering = ''auto'', isInShadowDOM = False,
       node = \<lparr> devtoolsNodePath = path, lhId = ''page-0-IMG'' \<rparr>,
       elementMimeType = None \<rparr>"

definition sampleBackground :: "string \<Rightarrow> string \<Rightarrow> ImageElement" where
  "sampleBackground u path =
     (sampleImage u path)
       \<lparr> naturalWidth := None, naturalHeight := None, attributeWidth := [],
         attributeHeight := [], isCss := True, loading := None, cssComputedObjectFit := [] \<rparr>"

definition sampleRecord :: "string \<Rightarrow> int \<Rightarrow> NetworkRequest" where
  "sampleRecord u bytes =
     \<lparr> url = u, mimeType = ''image/png'', finished = True, statusCode = 200,
       resourceSize = bytes \<rparr>"

definition samplePage :: "ImageElement list" where
  "samplePage =
     [sampleImage ''http://e/a.png'' ''1,HTML,1,BODY,0,IMG'',
      sampleBackground ''http://e/b.jpg'' ''1,HTML,1,BODY,1,DIV'',
      sampleImage ''http://e/c.png'' ''1,HTML,1,BODY,2,IMG'']"

definition sampleRecords :: "NetworkRequest list" where
  "sampleRecords = [sampleRecord ''http://e/a.png'' 500, sampleRecord ''http://e/b.jpg'' 2000]"

definition brokenPage :: "ImageElement list" where
  "brokenPage = [sampleImage ''http://e/a.png'' ''closed'']"

definition mislabelledWebp :: NetworkRequest where
  "mislabelledWebp =
     \<lparr> url = ''http://e/a.webp'', mimeType = ''application/octet-stream'',
       finished = True, statusCode = 200, resourceSize = 2000 \<rparr>"

definition misleadingMime :: NetworkRequest where
  "misleadingMime =
     \<lparr> url = ''http://e/x'', mimeType = ''imagex/png'',
       finished = True, statusCode = 200, resourceSize = 10 \<rparr>"

definition webpWithQuery :: NetworkRequest where
  "webpWithQuery =
     \<lparr> url = ''http://e/a.webp?v=1'', mimeType = ''application/octet-stream'',
       finished = True, statusCode = 200, resourceSize = 10 \<rparr>"

definition imgTag :: "string \<Rightarrow> string \<Rightarrow> string \<Rightarrow> Element" where
  "imgTag u set' parentTag =
     \<lparr> el_localName = ''img'', el_parentTagName = Some parentTag, el_currentSrc = u,
       el_srcset = set', el_width = 10, el_height = 10,
       el_clientRect = \<lparr> top = 0, bottom = 10, left = 0, right = 10 \<rparr>,
       el_naturalWidth = 640, el_naturalHeight = 480,
       el_widthAttribute = Some ''10'', el_heightAttribute = None, el_loading = ''auto'',
       el_computedPosition = ''static'', el_parentComputedPosition = ''relative'',
       el_computedObjectFit = ''fill'', el_computedImageRendering = ''auto'',
       el_rootIsShadowRoot = False,
       el_nodeDetails = \<lparr> devtoolsNodePath = ''1,HTML,1,BODY,0,IMG'', lhId = ''page-0-IMG'' \<rparr> \<rparr>"

definition sampleDocument :: "Element list" where
  "sampleDocument =
     [ imgTag ''http://e/a.png'' [] ''DIV'',
       (imgTag ''http://e/a.png'' [] ''DIV'')\<lparr> el_localName := ''div'' \<rparr>,
       imgTag ''http://e/b.png'' ''http://e/b.png 2x'' ''DIV'',
       imgTag ''http://e/c.png'' [] ''PICTURE'' ]"

definition oneDeclaration :: "string \<Rightarrow> string \<Rightarrow> CSSStyle" where
  "oneDeclaration property v = \<lparr> cssProperties = Some [\<lparr> propName = property, propValue = v \<rparr>] \<rparr>"

definition threeSources :: MatchedStylesForNode where
  "threeSources =
     \<lparr> attributesStyle = Some (oneDeclaration ''width'' ''2px''),
       inlineStyle = Some (oneDeclaration ''width'' ''1px''),
       matchedCSSRules =
         Some [\<lparr> ruleStyle = oneDeclaration ''width'' ''3px'', specificity = 10 \<rparr>,
               \<lparr> ruleStyle = oneDeclaration ''width'' ''4px'', specificity = 1 \<rparr>] \<rparr>"

definition emptyInlineWidth :: MatchedStylesForNode where
  "emptyInlineWidth =
     \<lparr> attributesStyle = Some (oneDeclaration ''width'' ''100''),
       inlineStyle = Some (oneDeclaration ''width'' []),
       matchedCSSRules = None \<rparr>"

section \<open>Auxiliary facts\<close>

subsection \<open>What the regular expressions accept\<close>

text \<open>
  The matcher decides the language of a regular expression; the three tests of the
  source are then characterised on strings directly.
\<close>

lemma acceptsEmpty_lang: "acceptsEmpty r \<longleftrightarrow> [] \<in> lang r"
  by (induction r) (auto intro: star.star_empty)

lemma star_cons:
  "c # w \<in> star L \<longleftrightarrow> (\<exists>u v. w = u @ v \<and> c # u \<in> L \<and> v \<in> star L)"
proof
  assume "c # w \<in> star L"
  then show "\<exists>u v. w = u @ v \<and> c # u \<in> L \<and> v \<in> star L"
  proof (induction "c # w" arbitrary: w rule: star.induct)
    case (star_step u v)
    show ?case
    proof (cases u)
      case Nil
      with star_step show ?thesis by simp
    next
      case (Cons a u')
      with star_step.hyps star_step.prems show ?thesis by auto
    qed
  qed
next
  assume "\<exists>u v. w = u @ v \<and> c # u \<in> L \<and> v \<in> star L"
  then obtain u v where "w = u @ v" "c # u \<in> L" "v \<in> star L" by blast
  then have "(c # u) @ v \<in> star L" by (intro star.star_step)
  with \<open>w = u @ v\<close> show "c # w \<in> star L" by simp
qed

lemma lang_Seq_cons:
  "c # w \<in> lang (Seq r s) \<longleftrightarrow>
     ([] \<in> lang r \<and> c # w \<in> lang s) \<or> (\<exists>u v. w = u @ v \<and> c # u \<in> lang r \<and> v \<in> lang s)"
proof
  assume "c # w \<in> lang (Seq r s)"
  then obtain u v where uv: "c # w = u @ v" "u \<in> lang r" "v \<in> lang s" by auto
  show "([] \<in> lang r \<and> c # w \<in> lang s) \<or> (\<exists>u v. w = u @ v \<and> c # u \<in> lang r \<and> v \<in> lang s)"
  proof (cases u)
    case Nil
    with uv show ?thesis by simp
  next
    case (Cons a u')
    with uv have "w = u' @ v" "c # u' \<in> lang r" by simp_all
    with uv(3) show ?thesis by blast
  qed
next
  assume "([] \<in> lang r \<and> c # w \<in> lang s) \<or> (\<exists>u v. w = u @ v \<and> c # u \<in> lang r \<and> v \<in> lang s)"
  then show "c # w \<in> lang (Seq r s)"
  proof
    assume "[] \<in> lang r \<and> c # w \<in> lang s"
    then have "[] @ (c # w) \<in> lang (Seq r s)" unfolding lang.simps by blast
    then show ?thesis by simp
  next
    assume "\<exists>u v. w = u @ v \<and> c # u \<in> lang r \<and> v \<in> lang s"
    then obtain u v where "w = u @ v" "c # u \<in> lang r" "v \<in> lang s" by blast
    then have "(c # u) @ v \<in> lang (Seq r s)" unfolding lang.simps by blast
    with \<open>w = u @ v\<close> show ?thesis by simp
  qed
qed

lemma lang_Alt_iff: "w \<in> lang (Alt r s) \<longleftrightarrow> w \<in> lang r \<or> w \<in> lang s"
  by simp

lemma lang_Seq_iff: "w \<in> lang (Seq r s) \<longleftrightarrow> (\<exists>u v. w = u @ v \<and> u \<in> lang r \<and> v \<in> lang s)"
  by auto

lemma lang_deriv: "w \<in> lang (deriv c r) \<longleftrightarrow> c # w \<in> lang r"
proof (induction r arbitrary: w)
  case Never
  show ?case by simp
next
  case Empty
  show ?case by simp
next
  case (Atom p)
  show ?case by simp
next
  case (Seq r s)
  show ?case
    unfolding lang_Seq_cons
    by (auto simp add: acceptsEmpty_lang lang_Seq_iff lang_Alt_iff Seq simp del: lang.simps)
next
  case (Alt r s)
  then show ?case by simp
next
  case (Star r)
  have "w \<in> lang (deriv c (Star r)) \<longleftrightarrow> (\<exists>u v. w = u @ v \<and> u \<in> lang (deriv c r) \<and> v \<in> star (lang r))"
    by auto
  then show ?case by (simp add: Star star_cons)
qed

lemma matches_lang: "matches r w \<longleftrightarrow> w \<in> lang r"
  by (induction w arbitrary: r) (simp_all add: acceptsEmpty_lang lang_deriv)

lemma star_atom: "w \<in> star (lang (Atom p)) \<longleftrightarrow> (\<forall>c \<in> set w. p c)"
proof
  assume "w \<in> star (lang (Atom p))"
  then show "\<forall>c \<in> set w. p c" by (induction rule: star.induct) auto
next
  assume "\<forall>c \<in> set w. p c"
  then show "w \<in> star (lang (Atom p))"
  proof (induction w)
    case Nil
    show ?case by (rule star.star_empty)
  next
    case (Cons a w)
    then have "[a] \<in> lang (Atom p)" "w \<in> star (lang (Atom p))" by auto
    then have "[a] @ w \<in> star (lang (Atom p))" by (rule star.star_step)
    then show ?case by simp
  qed
qed

lemma lang_literal_exact: "lang (literal False w) = {w}"
  by (induction w) auto

lemma lang_Atom_Seq:
  "v \<in> lang (Seq (Atom p) r) \<longleftrightarrow> (\<exists>x v'. v = x # v' \<and> p x \<and> v' \<in> lang r)"
proof
  assume "v \<in> lang (Seq (Atom p) r)"
  then show "\<exists>x v'. v = x # v' \<and> p x \<and> v' \<in> lang r" by auto
next
  assume "\<exists>x v'. v = x # v' \<and> p x \<and> v' \<in> lang r"
  then obtain x v' where "v = [x] @ v'" "[x] \<in> lang (Atom p)" "v' \<in> lang r" by auto
  then show "v \<in> lang (Seq (Atom p) r)" unfolding lang_Seq_iff by blast
qed

lemma lang_literal_fold:
  "v \<in> lang (literal True w) \<longleftrightarrow> map toUpperAscii v = map toUpperAscii w"
proof (induction w arbitrary: v)
  case Nil
  show ?case by simp
next
  case (Cons c w)
  show ?case
    unfolding literal.simps lang_Atom_Seq
    by (cases v) (simp_all add: Cons)
qed

lemma star_anyChar: "w \<in> star (lang anyChar)"
  by (simp add: anyChar_def star_atom del: lang.simps)

lemma regexTest_lang:
  "regexTest a r b s \<longleftrightarrow>
     (\<exists>pre mid post. s = pre @ mid @ post \<and> mid \<in> lang r \<and> (a \<longrightarrow> pre = []) \<and> (b \<longrightarrow> post = []))"
proof -
  let ?A = "if a then Empty else Star anyChar"
  let ?B = "if b then Empty else Star anyChar"
  have A: "\<And>w. w \<in> lang ?A \<longleftrightarrow> (a \<longrightarrow> w = [])"
    by (simp add: star_anyChar)
  have B: "\<And>w. w \<in> lang ?B \<longleftrightarrow> (b \<longrightarrow> w = [])"
    by (simp add: star_anyChar)
  have "regexTest a r b s \<longleftrightarrow> s \<in> lang (Seq ?A (Seq r ?B))"
    by (simp only: regexTest_def matches_lang)
  also have "\<dots> \<longleftrightarrow> (\<exists>pre rest. s = pre @ rest \<and> pre \<in> lang ?A \<and> rest \<in> lang (Seq r ?B))"
    by (rule lang_Seq_iff)
  also have "\<dots> \<longleftrightarrow> (\<exists>pre rest. s = pre @ rest \<and> pre \<in> lang ?A \<and>
                        (\<exists>mid post. rest = mid @ post \<and> mid \<in> lang r \<and> post \<in> lang ?B))"
    by (simp only: lang_Seq_iff)
  also have "\<dots> \<longleftrightarrow> (\<exists>pre mid post. s = pre @ mid @ post \<and> mid \<in> lang r \<and>
                        (a \<longrightarrow> pre = []) \<and> (b \<longrightarrow> post = []))"
    unfolding A B by blast
  finally show ?thesis .
qed

lemma reImage_prefix: "reImage s \<longleftrightarrow> prefix ''image'' s"
proof -
  have "reImage s \<longleftrightarrow> (\<exists>post. s = ''image'' @ post)"
    unfolding reImage_def regexTest_lang lang_literal_exact by simp
  then show ?thesis by (simp only: prefix_def)
qed

lemma split_map_two:
  "(\<exists>u v. mid = u @ v \<and> map f u = D \<and> (map f v = E1 \<or> map f v = E2)) \<longleftrightarrow>
     (map f mid = D @ E1 \<or> map f mid = D @ E2)"
  unfolding map_eq_append_conv by blast

lemma suffix_map_two:
  "(\<exists>pre mid. s = pre @ mid \<and> (map f mid = X \<or> map f mid = Y)) \<longleftrightarrow>
     suffix X (map f s) \<or> suffix Y (map f s)"
  unfolding suffix_def map_eq_append_conv by blast

lemma lang_dot_ext:
  "mid \<in> lang (Seq (literal True d) (Alt (literal True e1) (literal True e2))) \<longleftrightarrow>
     map toUpperAscii mid = map toUpperAscii d @ map toUpperAscii e1 \<or>
     map toUpperAscii mid = map toUpperAscii d @ map toUpperAscii e2"
  unfolding lang_Seq_iff lang_Alt_iff lang_literal_fold by (rule split_map_two)

lemma reAvifWebp_suffix:
  "reAvifWebp s \<longleftrightarrow>
     suffix ''.AVIF'' (map toUpperAscii s) \<or> suffix ''.WEBP'' (map toUpperAscii s)"
proof -
  have up: "map toUpperAscii ''.'' @ map toUpperAscii ''avif'' = ''.AVIF''"
    "map toUpperAscii ''.'' @ map toUpperAscii ''webp'' = ''.WEBP''"
    by (simp_all add: toUpperAscii_def)
  have "reAvifWebp s \<longleftrightarrow>
          (\<exists>pre mid. s = pre @ mid \<and>
             (map toUpperAscii mid = ''.AVIF'' \<or> map toUpperAscii mid = ''.WEBP''))"
    unfolding reAvifWebp_def regexTest_lang lang_dot_ext up by simp
  then show ?thesis by (simp only: suffix_map_two)
qed

lemma regroup_infix:
  "(\<exists>pre m post. s = pre @ m @ post \<and> (\<exists>mid. m = A @ mid @ B \<and> P mid)) \<longleftrightarrow>
     (\<exists>pre mid post. s = pre @ A @ mid @ B @ post \<and> P mid)"
  by (metis append_assoc)

lemma reNoNodeFound_iff:
  "reNoNodeFound s \<longleftrightarrow>
     (\<exists>pre mid post. s = pre @ ''No node'' @ mid @ ''found'' @ post \<and> (\<forall>c \<in> set mid. \<not> lineTerminator c))"
proof -
  have "reNoNodeFound s \<longleftrightarrow>
          (\<exists>pre m post. s = pre @ m @ post \<and>
             m \<in> lang (Seq (literal False ''No node'') (Seq (Star dot) (literal False ''found''))))"
    unfolding reNoNodeFound_def regexTest_lang by simp
  also have "\<dots> \<longleftrightarrow> (\<exists>pre m post. s = pre @ m @ post \<and>
                        (\<exists>mid. m = ''No node'' @ mid @ ''found'' \<and> (\<forall>c \<in> set mid. \<not> lineTerminator c)))"
    unfolding lang_Seq_iff lang_literal_exact
    apply (simp add: dot_def star_atom del: literal.simps lang.simps(3))
    apply blast
    done
  also have "\<dots> \<longleftrightarrow> (\<exists>pre mid post. s = pre @ ''No node'' @ mid @ ''found'' @ post \<and>
                        (\<forall>c \<in> set mid. \<not> lineTerminator c))"
    by (rule regroup_infix)
  finally show ?thesis .
qed

lemma isImage_iff:
  "isImage record \<longleftrightarrow>
     prefix ''image'' (mimeType record) \<or>
     suffix ''.AVIF'' (map toUpperAscii (url record)) \<or>
     suffix ''.WEBP'' (map toUpperAscii (url record))"
  by (simp add: isImage_def reImage_prefix reAvifWebp_suffix)

lemma indexedNetworkRecords_snoc:
  "indexedNetworkRecords (records @ [record]) = indexRecord (indexedNetworkRecords records) record"
  by (simp add: indexedNetworkRecords_def)

lemma webp_suffix: "suffix ''.webp'' u \<Longrightarrow> suffix ''.WEBP'' (map toUpperAscii u)"
proof -
  assume "suffix ''.webp'' u"
  then have "suffix (map toUpperAscii ''.webp'') (map toUpperAscii u)"
    by (rule map_mono_suffix)
  then show ?thesis by (simp add: toUpperAscii_def)
qed

lemma suffix_rev_prefix: "suffix xs ys \<longleftrightarrow> prefix (rev xs) (rev ys)"
  by (simp add: suffix_to_prefix)

subsection \<open>Calls and state of the two resolvers\<close>

lemma probes_append: "probes (xs @ ys) = probes xs @ probes ys"
  by (induction xs) (simp_all add: probes_def map_filter_simps split: option.split)

lemma probes_simps:
  "probes [] = []"
  "probes (Evaluate_determineNaturalSize u # cs) = u # probes cs"
  "probes (DOM_pushNodeByPathToFrontend p # cs) = probes cs"
  "probes (CSS_getMatchedStylesForNode n # cs) = probes cs"
  "probes (SetNextProtocolTimeout ms # cs) = probes cs"
  by (simp_all add: probes_def map_filter_simps)

lemma callsSince_append: "issued g' = issued g @ calls \<Longrightarrow> callsSince g g' = calls"
  by (simp add: callsSince_def)

lemma await_issued: "issued (snd (await driver call respond g)) = issued g @ [call]"
  by (simp add: await_def split: prod.split)

lemma await_frame:
  "skippedCount (snd (await driver call respond g)) = skippedCount g"
  "naturalSizeCache (snd (await driver call respond g)) = naturalSizeCache g"
  "warnings (snd (await driver call respond g)) = warnings g"
  by (simp_all add: await_def split: prod.split)

lemma fetchSourceRules_issued:
  "\<exists>calls. issued (snd (fetchSourceRules driver path element g)) = issued g @ calls \<and>
     probes calls = [] \<and>
     set calls \<subseteq> {DOM_pushNodeByPathToFrontend path} \<union> range CSS_getMatchedStylesForNode"
  by (auto simp add: fetchSourceRules_def await_def catchNoNode_def probes_simps Let_def
      split: prod.split sum.split)

lemma fetchSourceRules_keeps:
  assumes "fetchSourceRules driver path element g = (Inr element', g')"
  shows "src element' = src element" "srcset element' = srcset element"
    "naturalWidth element' = naturalWidth element" "naturalHeight element' = naturalHeight element"
    "isCss element' = isCss element" "isPicture element' = isPicture element"
    "isInShadowDOM element' = isInShadowDOM element" "node element' = node element"
    "elementMimeType element' = elementMimeType element"
  using assms
  by (auto simp add: fetchSourceRules_def await_def catchNoNode_def Let_def
      split: prod.splits sum.splits if_splits)

lemma fetchSourceRules_state:
  "skippedCount (snd (fetchSourceRules driver path element g)) = skippedCount g"
  "warnings (snd (fetchSourceRules driver path element g)) = warnings g"
  "reachedGatheringBudget g \<Longrightarrow> reachedGatheringBudget (snd (fetchSourceRules driver path element g))"
  by (auto simp add: fetchSourceRules_def await_def catchNoNode_def Let_def
      split: prod.split sum.split)

lemma fetchSourceRules_calls:
  "\<exists>calls. issued (snd (fetchSourceRules driver path element g)) = issued g @ calls \<and>
     (\<forall>c \<in> set calls. perElementCall c)"
  using fetchSourceRules_issued [of driver path element g] by fastforce

text \<open>Every call of the resolver issues the probe, whatever the cache holds.\<close>

lemma fetchElementWithSizeInformation_issued:
  "issued (snd (fetchElementWithSizeInformation driver element g)) =
     issued g @ [SetNextProtocolTimeout 250, Evaluate_determineNaturalSize (src element)]"
  by (simp add: fetchElementWithSizeInformation_def await_def setNextProtocolTimeout_def Let_def
      split: prod.split sum.split)

lemma fetchElementWithSizeInformation_state:
  "skippedCount (snd (fetchElementWithSizeInformation driver element g)) = skippedCount g"
  "warnings (snd (fetchElementWithSizeInformation driver element g)) = warnings g"
  "reachedGatheringBudget g \<Longrightarrow>
     reachedGatheringBudget (snd (fetchElementWithSizeInformation driver element g))"
  by (auto simp add: fetchElementWithSizeInformation_def await_def setNextProtocolTimeout_def
      Let_def split: prod.split sum.split)

lemma fetchElementWithSizeInformation_keeps:
  assumes "fetchElementWithSizeInformation driver element g = (element', g')"
  shows "src element' = src element" "elementMimeType element' = elementMimeType element"
    "cssWidth element' = cssWidth element" "cssHeight element' = cssHeight element"
    "privateCssSizing element' = privateCssSizing element" "node element' = node element"
    "isCss element' = isCss element" "isInShadowDOM element' = isInShadowDOM element"
  using assms
  by (auto simp add: fetchElementWithSizeInformation_def await_def setNextProtocolTimeout_def
      assignSize_def Let_def split: prod.splits sum.splits option.splits)

subsection \<open>The most specific rule\<close>

lemma truthy_declares: "truthy (findSizeDeclaration style property) \<longleftrightarrow> (\<exists>v. declaresProperty style property v)"
  by (cases "findSizeDeclaration style property") (simp_all add: declaresProperty_def)

lemma foldl_moreSpecific_snoc:
  "foldl (moreSpecific P) best (rs @ [m]) = moreSpecific P (foldl (moreSpecific P) best rs) m"
  by simp

lemma moreSpecific_None:
  "foldl (moreSpecific P) None rs = None \<longleftrightarrow> (\<forall>m \<in> set rs. \<not> P (ruleStyle m))"
proof (induction rs rule: rev_induct)
  case Nil
  show ?case by simp
next
  case (snoc m rs)
  show ?case
  proof (cases "foldl (moreSpecific P) None rs")
    case None
    have "foldl (moreSpecific P) None (rs @ [m]) = moreSpecific P None m"
      unfolding foldl_moreSpecific_snoc None ..
    also have "\<dots> = None \<longleftrightarrow> \<not> P (ruleStyle m)"
      by (simp add: moreSpecific_def)
    finally show ?thesis using snoc None by auto
  next
    case (Some b)
    have "foldl (moreSpecific P) None (rs @ [m]) = moreSpecific P (Some b) m"
      unfolding foldl_moreSpecific_snoc Some ..
    also have "\<dots> \<noteq> None"
      by (simp add: moreSpecific_def)
    finally show ?thesis using snoc Some by auto
  qed
qed

lemma moreSpecific_Some:
  "foldl (moreSpecific P) None rs = Some m \<Longrightarrow>
     m \<in> set rs \<and> P (ruleStyle m) \<and>
     (\<forall>m' \<in> set rs. P (ruleStyle m') \<longrightarrow> specificity m' \<le> specificity m)"
proof (induction rs arbitrary: m rule: rev_induct)
  case Nil
  then show ?case by simp
next
  case (snoc x rs)
  have step: "moreSpecific P (foldl (moreSpecific P) None rs) x = Some m"
    using snoc.prems unfolding foldl_moreSpecific_snoc .
  show ?case
  proof (cases "foldl (moreSpecific P) None rs")
    case None
    then have none: "\<forall>m' \<in> set rs. \<not> P (ruleStyle m')"
      by (simp add: moreSpecific_None)
    from step have "moreSpecific P None x = Some m" unfolding None .
    then have "P (ruleStyle x)" "m = x"
      by (auto simp add: moreSpecific_def split: if_splits)
    with none show ?thesis by auto
  next
    case (Some b)
    note ih = snoc.IH [OF Some]
    from step have step': "moreSpecific P (Some b) x = Some m" unfolding Some .
    show ?thesis
    proof (cases "P (ruleStyle x) \<and> specificity b \<le> specificity x")
      case True
      with step' have "m = x" by (simp add: moreSpecific_def)
      with True ih show ?thesis by auto
    next
      case False
      with step' have "m = b" by (auto simp add: moreSpecific_def)
      with False ih show ?thesis by auto
    qed
  qed
qed

lemma findMostSpecificCSSRule_None:
  assumes "\<forall>m \<in> set (ruleList matched). \<not> (\<exists>v. declaresProperty (Some (ruleStyle m)) property v)"
  shows "\<not> truthy (findMostSpecificCSSRule (matchedCSSRules matched) property)"
proof -
  have "foldl (moreSpecific (\<lambda>d. truthy (findSizeDeclaration (Some d) property))) None
          (ruleList matched) = None"
    using assms by (simp add: moreSpecific_None truthy_declares)
  then show ?thesis
    by (simp add: findMostSpecificCSSRule_def findMostSpecificMatchedCSSRule_def ruleList_def)
qed

lemma findMostSpecificCSSRule_Some:
  assumes "\<exists>m \<in> set (ruleList matched). \<exists>v. declaresProperty (Some (ruleStyle m)) property v"
  shows "\<exists>m \<in> set (ruleList matched). \<exists>v.
           declaresProperty (Some (ruleStyle m)) property v \<and>
           (\<forall>m' \<in> set (ruleList matched).
              (\<exists>v'. declaresProperty (Some (ruleStyle m')) property v') \<longrightarrow>
                specificity m' \<le> specificity m) \<and>
           findMostSpecificCSSRule (matchedCSSRules matched) property = Some v"
proof -
  let ?P = "\<lambda>d. truthy (findSizeDeclaration (Some d) property)"
  have "foldl (moreSpecific ?P) None (ruleList matched) \<noteq> None"
    using assms by (simp add: moreSpecific_None truthy_declares)
  then obtain m where m: "foldl (moreSpecific ?P) None (ruleList matched) = Some m"
    by blast
  note best = moreSpecific_Some [OF m]
  from best obtain v where v: "declaresProperty (Some (ruleStyle m)) property v"
    by (auto simp add: truthy_declares)
  have "findMostSpecificCSSRule (matchedCSSRules matched) property = Some v"
    using m v
    by (simp add: findMostSpecificCSSRule_def findMostSpecificMatchedCSSRule_def ruleList_def
        declaresProperty_def)
  with best v show ?thesis
    by (auto simp add: truthy_declares)
qed

subsection \<open>The loop body\<close>

lemma truthyObject_always: "truthyObject networkRecord"
  by (cases networkRecord) simp_all

lemma getMimeType_orEmptyObject: "getMimeType (orEmptyObject r) = map_option mimeType r"
  by (cases r) simp_all

lemma enrichElement_skip:
  "reachedGatheringBudget g \<Longrightarrow>
     enrichElement driver index element g =
       (Inr (element\<lparr> elementMimeType := getMimeType (orEmptyObject (index (src element))) \<rparr>),
        g\<lparr> skippedCount := skippedCount g + 1 \<rparr>)"
  by (simp add: enrichElement_def Let_def)

lemma enrichElement_enrich:
  "\<not> reachedGatheringBudget g \<Longrightarrow>
     enrichElement driver index element g =
       naturalSizeStep driver
         (let element1 = element\<lparr> elementMimeType := getMimeType (orEmptyObject (index (src element))) \<rparr>
          in if \<not> isInShadowDOM element \<and> \<not> isCss element
             then fetchSourceRules driver (devtoolsNodePath (node element)) element1 g
             else (Inr element1, g))"
  by (simp add: enrichElement_def naturalSizeStep_def Let_def truthyObject_always
      split: prod.split sum.split)

lemma naturalSizeStep_Inl: "naturalSizeStep driver (Inl err, g) = (Inl err, g)"
  by (simp add: naturalSizeStep_def)

lemma naturalSizeStep_calls:
  "\<exists>calls. issued (snd (naturalSizeStep driver (r, g))) = issued g @ calls \<and>
     (\<forall>c \<in> set calls. perElementCall c \<and> \<not> sourceRulesCall c)"
proof (cases r)
  case (Inl err)
  then show ?thesis by (simp add: naturalSizeStep_def)
next
  case (Inr element1)
  show ?thesis
  proof (cases "isPicture element1 \<or> isCss element1 \<or> srcset element1 \<noteq> []")
    case True
    obtain element2 g2 where f: "fetchElementWithSizeInformation driver element1 g = (element2, g2)"
      by (cases "fetchElementWithSizeInformation driver element1 g")
    have "issued g2 = issued g @ [SetNextProtocolTimeout 250, Evaluate_determineNaturalSize (src element1)]"
      using fetchElementWithSizeInformation_issued [of driver element1 g] f by simp
    with Inr True f show ?thesis by (simp add: naturalSizeStep_def)
  next
    case False
    with Inr show ?thesis by (simp add: naturalSizeStep_def)
  qed
qed

lemma naturalSizeStep_state:
  "skippedCount (snd (naturalSizeStep driver (r, g))) = skippedCount g"
  "warnings (snd (naturalSizeStep driver (r, g))) = warnings g"
  "reachedGatheringBudget g \<Longrightarrow> reachedGatheringBudget (snd (naturalSizeStep driver (r, g)))"
  by (simp_all add: naturalSizeStep_def split_beta fetchElementWithSizeInformation_state
      split: sum.split)

lemma naturalSizeStep_keeps:
  assumes "naturalSizeStep driver (Inr element1, g) = (Inr element2, g')"
  shows "src element2 = src element1" "elementMimeType element2 = elementMimeType element1"
    "cssWidth element2 = cssWidth element1" "cssHeight element2 = cssHeight element1"
    "privateCssSizing element2 = privateCssSizing element1" "node element2 = node element1"
    "isCss element2 = isCss element1" "isInShadowDOM element2 = isInShadowDOM element1"
  using assms fetchElementWithSizeInformation_keeps [of driver element1 g element2 g']
  by (auto simp add: naturalSizeStep_def split: if_splits prod.splits)

lemma enrichElement_skipped:
  "reachedGatheringBudget g \<Longrightarrow>
     enrichElement driver index element g =
       (Inr (withMimeType index element), g\<lparr> skippedCount := skippedCount g + 1 \<rparr>)"
  by (simp add: enrichElement_skip withMimeType_def getMimeType_orEmptyObject)

lemma enrichElement_steps:
  "\<not> reachedGatheringBudget g \<Longrightarrow>
     enrichElement driver index element g =
       naturalSizeStep driver (sourceRulesStep driver index element g)"
  by (simp add: enrichElement_enrich sourceRulesStep_def withMimeType_def
      getMimeType_orEmptyObject Let_def)

lemma sourceRulesStep_calls:
  "\<exists>calls. issued (snd (sourceRulesStep driver index element g)) = issued g @ calls \<and>
     (\<forall>c \<in> set calls. perElementCall c) \<and>
     (isInShadowDOM element \<or> isCss element \<longrightarrow> calls = [])"
  using fetchSourceRules_calls
    [of driver "devtoolsNodePath (node element)" "withMimeType index element" g]
  by (auto simp add: sourceRulesStep_def)

lemma sourceRulesStep_state:
  "skippedCount (snd (sourceRulesStep driver index element g)) = skippedCount g"
  "warnings (snd (sourceRulesStep driver index element g)) = warnings g"
  "reachedGatheringBudget g \<Longrightarrow> reachedGatheringBudget (snd (sourceRulesStep driver index element g))"
  by (simp_all add: sourceRulesStep_def fetchSourceRules_state)

lemma sourceRulesStep_keeps:
  assumes "sourceRulesStep driver index element g = (Inr element1, g1)"
  shows "src element1 = src element"
    "elementMimeType element1 = map_option mimeType (index (src element))"
    "node element1 = node element" "isCss element1 = isCss element"
    "isInShadowDOM element1 = isInShadowDOM element"
    "isInShadowDOM element \<or> isCss element \<Longrightarrow> element1 = withMimeType index element"
proof -
  have w: "src (withMimeType index element) = src element"
    "elementMimeType (withMimeType index element) = map_option mimeType (index (src element))"
    "node (withMimeType index element) = node element"
    "isCss (withMimeType index element) = isCss element"
    "isInShadowDOM (withMimeType index element) = isInShadowDOM element"
    by (simp_all add: withMimeType_def)
  show "src element1 = src element"
    "elementMimeType element1 = map_option mimeType (index (src element))"
    "node element1 = node element" "isCss element1 = isCss element"
    "isInShadowDOM element1 = isInShadowDOM element"
    using assms w fetchSourceRules_keeps
      [of driver "devtoolsNodePath (node element)" "withMimeType index element" g element1 g1]
    by (auto simp add: sourceRulesStep_def split: if_splits)
  show "element1 = withMimeType index element" if "isInShadowDOM element \<or> isCss element"
    using assms that by (auto simp add: sourceRulesStep_def)
qed

lemma sourceRulesStep_natural_size:
  assumes "sourceRulesStep driver index element g = (Inr element1, g1)"
  shows "naturalWidth element1 = naturalWidth element \<and>
         naturalHeight element1 = naturalHeight element \<and>
         (\<exists>calls. issued g1 = issued g @ calls \<and> probes calls = [])"
proof (cases "\<not> isInShadowDOM element \<and> \<not> isCss element")
  case True
  with assms have f: "fetchSourceRules driver (devtoolsNodePath (node element))
      (withMimeType index element) g = (Inr element1, g1)"
    by (simp add: sourceRulesStep_def)
  from fetchSourceRules_keeps(3,4) [OF f]
    fetchSourceRules_issued [of driver "devtoolsNodePath (node element)" "withMimeType index element" g]
    f
  show ?thesis by (auto simp add: withMimeType_def)
next
  case False
  with assms have "element1 = withMimeType index element" "g1 = g"
    by (auto simp add: sourceRulesStep_def)
  then show ?thesis by (simp add: withMimeType_def probes_simps)
qed

lemma enrichElement_calls:
  "\<exists>calls. issued (snd (enrichElement driver index element g)) = issued g @ calls \<and>
     (\<forall>c \<in> set calls. perElementCall c) \<and>
     (isInShadowDOM element \<or> isCss element \<longrightarrow> (\<forall>c \<in> set calls. \<not> sourceRulesCall c)) \<and>
     (reachedGatheringBudget g \<longrightarrow> calls = [])"
proof (cases "reachedGatheringBudget g")
  case True
  then show ?thesis by (simp add: enrichElement_skipped)
next
  case False
  obtain r g1 where s: "sourceRulesStep driver index element g = (r, g1)"
    by (cases "sourceRulesStep driver index element g")
  from sourceRulesStep_calls [of driver index element g] s
  obtain calls1 where c1: "issued g1 = issued g @ calls1" "\<forall>c \<in> set calls1. perElementCall c"
    "isInShadowDOM element \<or> isCss element \<longrightarrow> calls1 = []"
    by auto
  from naturalSizeStep_calls [of driver r g1]
  obtain calls2 where c2: "issued (snd (naturalSizeStep driver (r, g1))) = issued g1 @ calls2"
    "\<forall>c \<in> set calls2. perElementCall c \<and> \<not> sourceRulesCall c"
    by auto
  have "issued (snd (enrichElement driver index element g)) = issued g @ (calls1 @ calls2)"
    using False s c1(1) c2(1) by (simp add: enrichElement_steps)
  moreover have "\<forall>c \<in> set (calls1 @ calls2). perElementCall c"
    using c1(2) c2(2) by auto
  moreover have "isInShadowDOM element \<or> isCss element \<longrightarrow>
      (\<forall>c \<in> set (calls1 @ calls2). \<not> sourceRulesCall c)"
    using c1(3) c2(2) by auto
  ultimately show ?thesis using False by blast
qed

lemma enrichElement_state:
  "warnings (snd (enrichElement driver index element g)) = warnings g"
  "skippedCount (snd (enrichElement driver index element g)) =
     (if reachedGatheringBudget g then skippedCount g + 1 else skippedCount g)"
  "reachedGatheringBudget g \<Longrightarrow> reachedGatheringBudget (snd (enrichElement driver index element g))"
proof -
  obtain r g1 where s: "sourceRulesStep driver index element g = (r, g1)"
    by (cases "sourceRulesStep driver index element g")
  have g1: "warnings g1 = warnings g" "skippedCount g1 = skippedCount g"
    using sourceRulesStep_state(1,2) [of driver index element g] s by simp_all
  show "warnings (snd (enrichElement driver index element g)) = warnings g"
    using s g1 by (cases "reachedGatheringBudget g")
      (simp_all add: enrichElement_skipped enrichElement_steps naturalSizeStep_state)
  show "skippedCount (snd (enrichElement driver index element g)) =
     (if reachedGatheringBudget g then skippedCount g + 1 else skippedCount g)"
    using s g1 by (cases "reachedGatheringBudget g")
      (simp_all add: enrichElement_skipped enrichElement_steps naturalSizeStep_state)
  show "reachedGatheringBudget (snd (enrichElement driver index element g))"
    if "reachedGatheringBudget g"
    using that by (simp add: enrichElement_skipped)
qed

lemma enrichElement_keeps:
  assumes "enrichElement driver index element g = (Inr element', g')"
  shows "src element' = src element"
    "elementMimeType element' = map_option mimeType (index (src element))"
    "node element' = node element"
    "isInShadowDOM element \<or> isCss element \<Longrightarrow>
       cssWidth element' = cssWidth element \<and> cssHeight element' = cssHeight element \<and>
       privateCssSizing element' = privateCssSizing element"
proof -
  have w: "src (withMimeType index element) = src element"
    "elementMimeType (withMimeType index element) = map_option mimeType (index (src element))"
    "node (withMimeType index element) = node element"
    "cssWidth (withMimeType index element) = cssWidth element"
    "cssHeight (withMimeType index element) = cssHeight element"
    "privateCssSizing (withMimeType index element) = privateCssSizing element"
    by (simp_all add: withMimeType_def)
  have "src element' = src element \<and>
    elementMimeType element' = map_option mimeType (index (src element)) \<and>
    node element' = node element \<and>
    (isInShadowDOM element \<or> isCss element \<longrightarrow>
       cssWidth element' = cssWidth element \<and> cssHeight element' = cssHeight element \<and>
       privateCssSizing element' = privateCssSizing element)"
  proof (cases "reachedGatheringBudget g")
    case True
    with assms have "element' = withMimeType index element"
      by (simp add: enrichElement_skipped)
    with w show ?thesis by simp
  next
    case False
    obtain r g1 where s: "sourceRulesStep driver index element g = (r, g1)"
      by (cases "sourceRulesStep driver index element g")
    from assms False s have n: "naturalSizeStep driver (r, g1) = (Inr element', g')"
      by (simp add: enrichElement_steps)
    then obtain element1 where r: "r = Inr element1"
      by (cases r) (simp_all add: naturalSizeStep_Inl)
    note k1 = sourceRulesStep_keeps [OF s [unfolded r]]
    note k2 = naturalSizeStep_keeps [OF n [unfolded r]]
    show ?thesis using k1 k2 w by auto
  qed
  then show "src element' = src element"
    "elementMimeType element' = map_option mimeType (index (src element))"
    "node element' = node element"
    "isInShadowDOM element \<or> isCss element \<Longrightarrow>
       cssWidth element' = cssWidth element \<and> cssHeight element' = cssHeight element \<and>
       privateCssSizing element' = privateCssSizing element"
    by simp_all
qed

lemma enrichElement_no_probe:
  assumes "\<not> isCss element" "\<not> isPicture element" "srcset element = []"
  shows "probes (issued (snd (enrichElement driver index element g))) = probes (issued g)"
    and "fst (enrichElement driver index element g) = Inr enriched \<Longrightarrow>
           naturalWidth enriched = naturalWidth element \<and> naturalHeight enriched = naturalHeight element"
proof -
  let ?element = "element\<lparr> elementMimeType := getMimeType (orEmptyObject (index (src element))) \<rparr>"
  let ?path = "devtoolsNodePath (node element)"
  obtain r g1 where f: "fetchSourceRules driver ?path ?element g = (r, g1)"
    by (cases "fetchSourceRules driver ?path ?element g")
  obtain calls where calls: "issued g1 = issued g @ calls" "probes calls = []"
    using fetchSourceRules_issued [of driver ?path ?element g] f by auto
  have keeps: "\<not> isCss e \<and> \<not> isPicture e \<and> srcset e = [] \<and>
      naturalWidth e = naturalWidth element \<and> naturalHeight e = naturalHeight element"
    if "r = Inr e" for e
    using fetchSourceRules_keeps [of driver ?path ?element g e g1] f assms that by simp
  have step: "naturalSizeStep driver (r, g1) = (r, g1)"
  proof (cases r)
    case (Inl err)
    then show ?thesis by (simp add: naturalSizeStep_def)
  next
    case (Inr e)
    with keeps [of e] show ?thesis by (simp add: naturalSizeStep_def)
  qed
  have plain: "naturalSizeStep driver (Inr ?element, g) = (Inr ?element, g)"
    using assms by (simp add: naturalSizeStep_def)
  consider (skip) "reachedGatheringBudget g"
    | (shadow) "\<not> reachedGatheringBudget g" "isInShadowDOM element"
    | (rules) "\<not> reachedGatheringBudget g" "\<not> isInShadowDOM element"
    by blast
  then have result: "enrichElement driver index element g
      \<in> {(Inr ?element, g\<lparr> skippedCount := skippedCount g + 1 \<rparr>), (Inr ?element, g), (r, g1)}"
  proof cases
    case skip
    then show ?thesis by (simp add: enrichElement_skip)
  next
    case shadow
    then show ?thesis using plain by (simp add: enrichElement_enrich Let_def)
  next
    case rules
    then show ?thesis using assms f step by (simp add: enrichElement_enrich Let_def)
  qed
  show "probes (issued (snd (enrichElement driver index element g))) = probes (issued g)"
    using result calls by (auto simp add: probes_append)
  show "naturalWidth enriched = naturalWidth element \<and> naturalHeight enriched = naturalHeight element"
    if "fst (enrichElement driver index element g) = Inr enriched"
    using result that keeps [of enriched] by auto
qed

lemma enrichElement_natural_size_by_probe:
  assumes run: "enrichElement driver index element g = (Inr enriched, g')"
    and changed: "naturalWidth enriched \<noteq> naturalWidth element \<or>
                  naturalHeight enriched \<noteq> naturalHeight element"
  shows "probes (issued g') = probes (issued g) @ [src element]"
proof (cases "reachedGatheringBudget g")
  case True
  with run have "enriched = withMimeType index element"
    by (simp add: enrichElement_skipped)
  with changed show ?thesis by (simp add: withMimeType_def)
next
  case False
  obtain r g1 where s: "sourceRulesStep driver index element g = (r, g1)"
    by (cases "sourceRulesStep driver index element g")
  from run False s have n: "naturalSizeStep driver (r, g1) = (Inr enriched, g')"
    by (simp add: enrichElement_steps)
  then obtain element1 where r: "r = Inr element1"
    by (cases r) (simp_all add: naturalSizeStep_Inl)
  from sourceRulesStep_natural_size [OF s [unfolded r]] obtain calls where
    same: "naturalWidth element1 = naturalWidth element" "naturalHeight element1 = naturalHeight element"
    and calls: "issued g1 = issued g @ calls" "probes calls = []"
    by blast
  have src1: "src element1 = src element"
    using sourceRulesStep_keeps(1) [OF s [unfolded r]] .
  show ?thesis
  proof (cases "isPicture element1 \<or> isCss element1 \<or> srcset element1 \<noteq> []")
    case True
    with n r have "g' = snd (fetchElementWithSizeInformation driver element1 g1)"
      by (auto simp add: naturalSizeStep_def split: prod.splits)
    then have "issued g' = issued g1 @
        [SetNextProtocolTimeout 250, Evaluate_determineNaturalSize (src element1)]"
      by (simp add: fetchElementWithSizeInformation_issued)
    with calls src1 show ?thesis by (simp add: probes_append probes_simps)
  next
    case False
    with n r have "enriched = element1" by (simp add: naturalSizeStep_def)
    with same changed show ?thesis by simp
  qed
qed

lemma fetchElementWithSizeInformation_answer:
  assumes "determineNaturalSize driver (src element) (env g) = (Inr answer, env')"
  shows "naturalWidth (fst (fetchElementWithSizeInformation driver element g)) = Some (fst answer)"
    "naturalHeight (fst (fetchElementWithSizeInformation driver element g)) = Some (snd answer)"
  using assms
  by (simp_all add: fetchElementWithSizeInformation_def await_def setNextProtocolTimeout_def
      assignSize_def Let_def)

lemma fetchSourceRules_answer:
  assumes "pushNodeByPathToFrontend driver path (env g) = (Inr nodeId, env1)" "nodeId \<noteq> 0"
    and "getMatchedStylesForNode driver nodeId env1 = (Inr matched, env2)"
  shows "fst (fetchSourceRules driver path element g) =
     Inr (element\<lparr> cssWidth := nullToUndefined (getEffectiveSizingRule matched ''width''),
                    cssHeight := nullToUndefined (getEffectiveSizingRule matched ''height''),
                    privateCssSizing := Some (getEffectiveSizingRule matched ''width'',
                                              getEffectiveSizingRule matched ''height'') \<rparr>)"
  using assms by (simp add: fetchSourceRules_def await_def Let_def)

lemma fetchSourceRules_first_call:
  "\<exists>calls. issued (snd (fetchSourceRules driver path element g)) =
     issued g @ DOM_pushNodeByPathToFrontend path # calls"
  by (auto simp add: fetchSourceRules_def await_def catchNoNode_def Let_def
      split: prod.split sum.split)

lemma sourceRulesStep_issued:
  "\<exists>calls. issued (snd (sourceRulesStep driver index element g)) = issued g @ calls \<and>
     probes calls = [] \<and>
     (DOM_pushNodeByPathToFrontend (devtoolsNodePath (node element)) \<in> set calls) =
       (\<not> isInShadowDOM element \<and> \<not> isCss element)"
proof (cases "\<not> isInShadowDOM element \<and> \<not> isCss element")
  case True
  let ?path = "devtoolsNodePath (node element)"
  from fetchSourceRules_first_call [of driver ?path "withMimeType index element" g]
  obtain calls where c: "issued (snd (fetchSourceRules driver ?path (withMimeType index element) g))
      = issued g @ DOM_pushNodeByPathToFrontend ?path # calls"
    by blast
  from fetchSourceRules_issued [of driver ?path "withMimeType index element" g] c
  have "probes (DOM_pushNodeByPathToFrontend ?path # calls) = []" by auto
  with c True show ?thesis by (auto simp add: sourceRulesStep_def)
next
  case False
  then show ?thesis by (auto simp add: sourceRulesStep_def probes_simps)
qed

lemma naturalSizeStep_issued:
  "issued (snd (naturalSizeStep driver (Inr element1, g1))) =
     issued g1 @ (if isPicture element1 \<or> isCss element1 \<or> srcset element1 \<noteq> []
                  then [SetNextProtocolTimeout 250, Evaluate_determineNaturalSize (src element1)]
                  else [])"
  by (simp add: naturalSizeStep_def split_beta fetchElementWithSizeInformation_issued)

lemma sourceRulesStep_eligible:
  assumes "sourceRulesStep driver index element g = (Inr element1, g1)"
  shows "isPicture element1 = isPicture element" "srcset element1 = srcset element"
  using assms fetchSourceRules_keeps
      [of driver "devtoolsNodePath (node element)" "withMimeType index element" g element1 g1]
  by (auto simp add: sourceRulesStep_def withMimeType_def split: if_splits)

lemma enrichElement_enriches:
  assumes unexpired: "\<not> reachedGatheringBudget g"
    and run: "enrichElement driver index element g = (Inr enriched, g')"
  shows "(DOM_pushNodeByPathToFrontend (devtoolsNodePath (node element)) \<in> set (callsSince g g')) =
           (\<not> isInShadowDOM element \<and> \<not> isCss element)"
    and "probes (callsSince g g') =
           (if isPicture element \<or> isCss element \<or> srcset element \<noteq> [] then [src element] else [])"
    and "\<not> isInShadowDOM element \<Longrightarrow> \<not> isCss element \<Longrightarrow>
         pushNodeByPathToFrontend driver (devtoolsNodePath (node element)) (env g) = (Inr nodeId, env1) \<Longrightarrow>
         nodeId \<noteq> 0 \<Longrightarrow>
         getMatchedStylesForNode driver nodeId env1 = (Inr matched, env2) \<Longrightarrow>
           cssWidth enriched = nullToUndefined (getEffectiveSizingRule matched ''width'') \<and>
           cssHeight enriched = nullToUndefined (getEffectiveSizingRule matched ''height'') \<and>
           privateCssSizing enriched = Some (getEffectiveSizingRule matched ''width'',
                                             getEffectiveSizingRule matched ''height'')"
    and "isPicture element \<or> isCss element \<or> srcset element \<noteq> [] \<Longrightarrow>
         determineNaturalSize driver (src element)
           (env (snd (sourceRulesStep driver index element g))) = (Inr answer, env') \<Longrightarrow>
           naturalWidth enriched = Some (fst answer) \<and> naturalHeight enriched = Some (snd answer)"
proof -
  obtain r g1 where s: "sourceRulesStep driver index element g = (r, g1)"
    by (cases "sourceRulesStep driver index element g")
  from run unexpired s have n: "naturalSizeStep driver (r, g1) = (Inr enriched, g')"
    by (simp add: enrichElement_steps)
  then obtain element1 where r: "r = Inr element1"
    by (cases r) (simp_all add: naturalSizeStep_Inl)
  note s1 = s [unfolded r]
  note n1 = n [unfolded r]
  note k1 = sourceRulesStep_keeps [OF s1]
  note e1 = sourceRulesStep_eligible [OF s1]
  from sourceRulesStep_issued [of driver index element g] s
  obtain calls1 where c1: "issued g1 = issued g @ calls1" "probes calls1 = []"
    "(DOM_pushNodeByPathToFrontend (devtoolsNodePath (node element)) \<in> set calls1) =
       (\<not> isInShadowDOM element \<and> \<not> isCss element)"
    by auto
  have c2: "issued g' = issued g1 @
      (if isPicture element \<or> isCss element \<or> srcset element \<noteq> []
       then [SetNextProtocolTimeout 250, Evaluate_determineNaturalSize (src element)] else [])"
    using naturalSizeStep_issued [of driver element1 g1] n1 k1(1,4) e1 by simp
  have all: "callsSince g g' = calls1 @
      (if isPicture element \<or> isCss element \<or> srcset element \<noteq> []
       then [SetNextProtocolTimeout 250, Evaluate_determineNaturalSize (src element)] else [])"
    by (rule callsSince_append) (simp add: c1(1) c2)
  show "(DOM_pushNodeByPathToFrontend (devtoolsNodePath (node element)) \<in> set (callsSince g g')) =
           (\<not> isInShadowDOM element \<and> \<not> isCss element)"
    unfolding all using c1(3) by auto
  show "probes (callsSince g g') =
           (if isPicture element \<or> isCss element \<or> srcset element \<noteq> [] then [src element] else [])"
    unfolding all by (simp add: probes_append probes_simps c1(2))
  show "cssWidth enriched = nullToUndefined (getEffectiveSizingRule matched ''width'') \<and>
           cssHeight enriched = nullToUndefined (getEffectiveSizingRule matched ''height'') \<and>
           privateCssSizing enriched = Some (getEffectiveSizingRule matched ''width'',
                                             getEffectiveSizingRule matched ''height'')"
    if "\<not> isInShadowDOM element" "\<not> isCss element"
      "pushNodeByPathToFrontend driver (devtoolsNodePath (node element)) (env g) = (Inr nodeId, env1)"
      "nodeId \<noteq> 0" "getMatchedStylesForNode driver nodeId env1 = (Inr matched, env2)"
  proof -
    from s1 that(1,2) have "fst (fetchSourceRules driver (devtoolsNodePath (node element))
        (withMimeType index element) g) = Inr element1"
      by (simp add: sourceRulesStep_def)
    with fetchSourceRules_answer [OF that(3,4,5), of "withMimeType index element"]
    have "cssWidth element1 = nullToUndefined (getEffectiveSizingRule matched ''width'') \<and>
          cssHeight element1 = nullToUndefined (getEffectiveSizingRule matched ''height'') \<and>
          privateCssSizing element1 = Some (getEffectiveSizingRule matched ''width'',
                                            getEffectiveSizingRule matched ''height'')"
      by auto
    with naturalSizeStep_keeps(3,4,5) [OF n1] show ?thesis by simp
  qed
  show "naturalWidth enriched = Some (fst answer) \<and> naturalHeight enriched = Some (snd answer)"
    if "isPicture element \<or> isCss element \<or> srcset element \<noteq> []"
      "determineNaturalSize driver (src element)
         (env (snd (sourceRulesStep driver index element g))) = (Inr answer, env')"
  proof -
    from that(1) k1(4) e1 have "isPicture element1 \<or> isCss element1 \<or> srcset element1 \<noteq> []"
      by simp
    with n1 have "enriched = fst (fetchElementWithSizeInformation driver element1 g1)"
      by (simp add: naturalSizeStep_def split_beta)
    moreover from that(2) s1 k1(1)
    have "determineNaturalSize driver (src element1) (env g1) = (Inr answer, env')"
      by simp
    ultimately show ?thesis
      using fetchElementWithSizeInformation_answer [of driver element1 g1 answer env'] by simp
  qed
qed


lemma enrichElement_fatal:
  assumes "\<not> reachedGatheringBudget g" "\<not> isInShadowDOM element" "\<not> isCss element"
    and "fetchSourceRules driver (devtoolsNodePath (node element)) (withMimeType index element) g
           = (Inl err, g1)"
  shows "enrichElement driver index element g = (Inl err, g1)"
  using assms by (simp add: enrichElement_steps sourceRulesStep_def naturalSizeStep_Inl)

lemma htmlImage_natural_size:
  "naturalWidth (htmlImage element) =
     (if el_srcset element = [] \<and> el_parentTagName element \<noteq> Some ''PICTURE''
      then Some (el_naturalWidth element) else None)"
  "naturalHeight (htmlImage element) =
     (if el_srcset element = [] \<and> el_parentTagName element \<noteq> Some ''PICTURE''
      then Some (el_naturalHeight element) else None)"
  "isCss (htmlImage element) = False"
  "isPicture (htmlImage element) = (el_parentTagName element = Some ''PICTURE'')"
  "srcset (htmlImage element) = el_srcset element"
  by (auto simp add: htmlImage_def parentIsPicture_def Let_def split: option.split)

subsection \<open>The enrichment loop\<close>

lemma enrichElements_append:
  "enrichElements driver index (xs @ ys) g =
     (case enrichElements driver index xs g of
        (Inl err, g1) \<Rightarrow> (Inl err, g1)
      | (Inr xs', g1) \<Rightarrow>
          (case enrichElements driver index ys g1 of
             (Inl err, g2) \<Rightarrow> (Inl err, g2)
           | (Inr ys', g2) \<Rightarrow> (Inr (xs' @ ys'), g2)))"
proof (induction xs arbitrary: g)
  case Nil
  show ?case by (simp split: prod.split sum.split)
next
  case (Cons x xs)
  show ?case
    by (simp add: Cons split: prod.split sum.split)
qed

lemma enrichElements_calls:
  "\<exists>calls. issued (snd (enrichElements driver index elements g)) = issued g @ calls \<and>
     (\<forall>c \<in> set calls. perElementCall c) \<and>
     ((\<forall>e \<in> set elements. isInShadowDOM e \<or> isCss e) \<longrightarrow>
        (\<forall>c \<in> set calls. \<not> sourceRulesCall c)) \<and>
     (reachedGatheringBudget g \<longrightarrow> calls = [])"
proof (induction elements arbitrary: g)
  case Nil
  show ?case by simp
next
  case (Cons element rest)
  obtain r g1 where e: "enrichElement driver index element g = (r, g1)"
    by (cases "enrichElement driver index element g")
  from enrichElement_calls [of driver index element g] e
  obtain calls1 where c1: "issued g1 = issued g @ calls1" "\<forall>c \<in> set calls1. perElementCall c"
    "isInShadowDOM element \<or> isCss element \<longrightarrow> (\<forall>c \<in> set calls1. \<not> sourceRulesCall c)"
    "reachedGatheringBudget g \<longrightarrow> calls1 = []"
    by auto
  have mono: "reachedGatheringBudget g \<longrightarrow> reachedGatheringBudget g1"
    using enrichElement_state(3) [of g driver index element] e by simp
  show ?case
  proof (cases r)
    case (Inl err)
    with e c1 show ?thesis by auto
  next
    case (Inr element1)
    from Cons.IH [of g1]
    obtain calls2 where c2:
      "issued (snd (enrichElements driver index rest g1)) = issued g1 @ calls2"
      "\<forall>c \<in> set calls2. perElementCall c"
      "(\<forall>e \<in> set rest. isInShadowDOM e \<or> isCss e) \<longrightarrow> (\<forall>c \<in> set calls2. \<not> sourceRulesCall c)"
      "reachedGatheringBudget g1 \<longrightarrow> calls2 = []"
      by auto
    have "issued (snd (enrichElements driver index (element # rest) g)) = issued g @ (calls1 @ calls2)"
      using e Inr c1(1) c2(1) by (simp add: split_beta split: sum.split)
    moreover have "\<forall>c \<in> set (calls1 @ calls2). perElementCall c"
      using c1(2) c2(2) by auto
    moreover have "(\<forall>e \<in> set (element # rest). isInShadowDOM e \<or> isCss e) \<longrightarrow>
        (\<forall>c \<in> set (calls1 @ calls2). \<not> sourceRulesCall c)"
      using c1(3) c2(3) by auto
    moreover have "reachedGatheringBudget g \<longrightarrow> calls1 @ calls2 = []"
      using c1(4) c2(4) mono by auto
    ultimately show ?thesis by blast
  qed
qed

lemma enrichElements_state:
  "warnings (snd (enrichElements driver index elements g)) = warnings g"
  "reachedGatheringBudget g \<Longrightarrow>
     reachedGatheringBudget (snd (enrichElements driver index elements g))"
proof (induction elements arbitrary: g)
  case Nil
  {
    case 1
    show ?case by simp
  next
    case 2
    then show ?case by simp
  }
next
  case (Cons element rest)
  {
    case 1
    show ?case
      using Cons.IH(1) [of "snd (enrichElement driver index element g)"]
        enrichElement_state(1) [of driver index element g]
      by (simp add: split_beta split: sum.split)
  next
    case 2
    then show ?case
      using Cons.IH(2) [of "snd (enrichElement driver index element g)"]
        enrichElement_state(3) [of g driver index element]
      by (simp add: split_beta split: sum.split)
  }
qed

lemma enrichElements_all_skipped:
  "reachedGatheringBudget g \<Longrightarrow>
     enrichElements driver index elements g =
       (Inr (map (withMimeType index) elements),
        g\<lparr> skippedCount := skippedCount g + length elements \<rparr>)"
proof (induction elements arbitrary: g)
  case Nil
  show ?case by simp
next
  case (Cons element rest)
  have "reachedGatheringBudget (g\<lparr> skippedCount := skippedCount g + 1 \<rparr>)"
    using Cons.prems by simp
  from Cons.IH [OF this] Cons.prems show ?case
    by (simp add: enrichElement_skipped)
qed

lemma enrichElements_keeps:
  "enrichElements driver index elements g = (Inr out, g') \<Longrightarrow>
     map src out = map src elements \<and>
     map node out = map node elements \<and>
     map elementMimeType out = map (\<lambda>e. map_option mimeType (index (src e))) elements \<and>
     list_all2 (\<lambda>e e'. isInShadowDOM e \<or> isCss e \<longrightarrow>
                  cssWidth e' = cssWidth e \<and> cssHeight e' = cssHeight e \<and>
                  privateCssSizing e' = privateCssSizing e) elements out"
proof (induction elements arbitrary: g out)
  case Nil
  then show ?case by simp
next
  case (Cons element rest)
  from Cons.prems obtain element1 g1 rest1 where
    e: "enrichElement driver index element g = (Inr element1, g1)" and
    r: "enrichElements driver index rest g1 = (Inr rest1, g')" and
    out: "out = element1 # rest1"
    by (auto split: prod.splits sum.splits)
  note k = enrichElement_keeps [OF e]
  from Cons.IH [OF r] k out show ?case by simp
qed

lemma begun_after_budget: "reachedGatheringBudget g \<Longrightarrow> begun driver index elements g = 0"
proof (induction elements arbitrary: g)
  case Nil
  show ?case by simp
next
  case (Cons element rest)
  have "reachedGatheringBudget (g\<lparr> skippedCount := skippedCount g + 1 \<rparr>)"
    using Cons.prems by simp
  from Cons.IH [OF this] Cons.prems show ?case
    by (simp add: enrichElement_skipped)
qed

lemma enrichElements_budget:
  "enrichElements driver index elements g = (Inr out, g') \<Longrightarrow>
     begun driver index elements g \<le> length elements \<and>
     length out = length elements \<and>
     skippedCount g' = skippedCount g + (length elements - begun driver index elements g) \<and>
     drop (begun driver index elements g) out =
       map (withMimeType index) (drop (begun driver index elements g) elements) \<and>
     (begun driver index elements g < length elements \<longrightarrow> reachedGatheringBudget g')"
proof (induction elements arbitrary: g out)
  case Nil
  then show ?case by simp
next
  case (Cons element rest)
  from Cons.prems obtain element1 g1 rest1 where
    e: "enrichElement driver index element g = (Inr element1, g1)" and
    r: "enrichElements driver index rest g1 = (Inr rest1, g')" and
    out: "out = element1 # rest1"
    by (auto split: prod.splits sum.splits)
  note ih = Cons.IH [OF r]
  show ?case
  proof (cases "reachedGatheringBudget g")
    case True
    with e have e1: "element1 = withMimeType index element"
      and g1: "g1 = g\<lparr> skippedCount := skippedCount g + 1 \<rparr>"
      by (simp_all add: enrichElement_skipped)
    have reached1: "reachedGatheringBudget g1" using True g1 by simp
    have zero: "begun driver index rest g1 = 0" "begun driver index (element # rest) g = 0"
      using True reached1 by (simp_all only: begun_after_budget)
    have "reachedGatheringBudget g'"
      using enrichElements_state(2) [OF reached1, of driver index rest] r by simp
    with ih zero e1 g1 out show ?thesis by simp
  next
    case False
    have k: "begun driver index (element # rest) g = Suc (begun driver index rest g1)"
      using False e by simp
    have "skippedCount g1 = skippedCount g"
      using enrichElement_state(2) [of driver index element g] e False by simp
    with ih k out show ?thesis by simp
  qed
qed

lemma enrichElements_begun_nth:
  assumes "enrichElements driver index elements g = (Inr out, g')"
    and "i < begun driver index elements g"
  shows "\<not> reachedGatheringBudget (snd (enrichElements driver index (take i elements) g)) \<and>
         enrichElement driver index (elements ! i)
             (snd (enrichElements driver index (take i elements) g))
           = (Inr (out ! i), snd (enrichElements driver index (take (Suc i) elements) g))"
  using assms
proof (induction elements arbitrary: g out i)
  case Nil
  then show ?case by simp
next
  case (Cons element rest)
  from Cons.prems(1) obtain element1 g1 rest1 where
    e: "enrichElement driver index element g = (Inr element1, g1)" and
    r: "enrichElements driver index rest g1 = (Inr rest1, g')" and
    out: "out = element1 # rest1"
    by (auto split: prod.splits sum.splits)
  have unexpired: "\<not> reachedGatheringBudget g"
    using Cons.prems(2) begun_after_budget [of g driver index "element # rest"] by auto
  show ?case
  proof (cases i)
    case 0
    with e out unexpired show ?thesis by simp
  next
    case (Suc j)
    with Cons.prems(2) unexpired e have "j < begun driver index rest g1" by simp
    from Cons.IH [OF r this] Suc e out show ?thesis
      by (simp add: split_beta split: sum.split)
  qed
qed

lemma enrichElements_begun_issued:
  assumes "enrichElements driver index elements g = (Inr out, g')"
  shows "issued (snd (enrichElements driver index
            (take (begun driver index elements g) elements) g)) = issued g'"
  using assms
proof (induction elements arbitrary: g out)
  case Nil
  then show ?case by simp
next
  case (Cons element rest)
  from Cons.prems obtain element1 g1 rest1 where
    e: "enrichElement driver index element g = (Inr element1, g1)" and
    r: "enrichElements driver index rest g1 = (Inr rest1, g')" and
    out: "out = element1 # rest1"
    by (auto split: prod.splits sum.splits)
  show ?case
  proof (cases "reachedGatheringBudget g")
    case True
    then have "begun driver index (element # rest) g = 0"
      by (rule begun_after_budget)
    moreover have "issued g' = issued g"
      using enrichElements_all_skipped [OF True, of driver index "element # rest"] Cons.prems
      by auto
    ultimately show ?thesis by simp
  next
    case False
    with e have "begun driver index (element # rest) g = Suc (begun driver index rest g1)"
      by simp
    with Cons.IH [OF r] e show ?thesis
      by (simp add: split_beta split: sum.split)
  qed
qed

lemma enrichElements_fatal:
  assumes "enrichElements driver index before g = (Inr before', g1)"
    and "enrichElement driver index element g1 = (Inl err, g2)"
  shows "enrichElements driver index (before @ element # rest) g = (Inl err, g2)"
  using assms by (simp add: enrichElements_append)

subsection \<open>The insertion sort: stable, a permutation, descending where every element has a record\<close>

lemma insertSorted_mset: "mset (insertSorted cmp x ys) = add_mset x (mset ys)"
  by (induction ys) simp_all

lemma insertionSort_mset: "mset (insertionSort cmp xs) = mset xs"
proof -
  have "mset (foldl (\<lambda>placed x. insertSorted cmp x placed) acc xs) = mset acc + mset xs" for acc
    by (induction xs arbitrary: acc) (simp_all add: insertSorted_mset)
  then show ?thesis by (simp add: insertionSort_def)
qed

lemma insertSorted_set: "set (insertSorted cmp x ys) = insert x (set ys)"
  by (induction ys) auto

lemma insertSorted_ties:
  "\<forall>y \<in> set ys. sortCompare (cmp x y) = 0 \<Longrightarrow> insertSorted cmp x ys = ys @ [x]"
  by (induction ys) simp_all

lemma insertionSort_keepsTies: "keepsTies insertionSort"
proof -
  have "foldl (\<lambda>placed x. insertSorted cmp x placed) acc xs = acc @ xs"
    if "\<forall>x \<in> set acc \<union> set xs. \<forall>y \<in> set acc \<union> set xs. sortCompare (cmp x y) = 0"
    for cmp :: "'a \<Rightarrow> 'a \<Rightarrow> jsNumber" and acc xs
    using that
  proof (induction xs arbitrary: acc)
    case Nil
    show ?case by simp
  next
    case (Cons x xs)
    have "insertSorted cmp x acc = acc @ [x]"
      using Cons.prems by (intro insertSorted_ties) simp
    moreover have "\<forall>a \<in> set (acc @ [x]) \<union> set xs. \<forall>b \<in> set (acc @ [x]) \<union> set xs.
        sortCompare (cmp a b) = 0"
      using Cons.prems by simp
    ultimately show ?case
      using Cons.IH [of "acc @ [x]"] by simp
  qed
  from this [of "[]"] show ?thesis
    by (simp add: keepsTies_def insertionSort_def)
qed

lemma insertSorted_by_key:
  fixes key :: "'a \<Rightarrow> int"
  assumes "sorted_wrt (\<lambda>a b. key b \<le> key a) ys"
    and "\<forall>y \<in> set ys. sortCompare (cmp x y) < 0 \<longleftrightarrow> key y < key x"
  shows "sorted_wrt (\<lambda>a b. key b \<le> key a) (insertSorted cmp x ys)"
  using assms
proof (induction ys)
  case Nil
  show ?case by simp
next
  case (Cons y ys)
  show ?case
  proof (cases "sortCompare (cmp x y) < 0")
    case True
    with Cons.prems have "key y < key x" by simp
    moreover from Cons.prems have "\<forall>z \<in> set ys. key z \<le> key y" by simp
    ultimately have "\<forall>z \<in> set (y # ys). key z \<le> key x" by fastforce
    with True Cons.prems(1) show ?thesis by simp
  next
    case False
    with Cons.prems have "key x \<le> key y" by simp
    moreover from Cons.prems have "\<forall>z \<in> set ys. key z \<le> key y" by simp
    ultimately have "\<forall>z \<in> set (insertSorted cmp x ys). key z \<le> key y"
      by (simp add: insertSorted_set)
    moreover have "sorted_wrt (\<lambda>a b. key b \<le> key a) (insertSorted cmp x ys)"
      using Cons by simp
    ultimately show ?thesis using False by simp
  qed
qed

lemma insertionSort_by_key:
  fixes key :: "'a \<Rightarrow> int"
  assumes "\<forall>x \<in> set xs. \<forall>y \<in> set xs. sortCompare (cmp x y) < 0 \<longleftrightarrow> key y < key x"
  shows "sorted_wrt (\<lambda>a b. key b \<le> key a) (insertionSort cmp xs)"
proof -
  have "sorted_wrt (\<lambda>a b. key b \<le> key a) (foldl (\<lambda>placed x. insertSorted cmp x placed) acc ys)"
    if "sorted_wrt (\<lambda>a b. key b \<le> key a) acc"
      and "\<forall>x \<in> set acc \<union> set ys. \<forall>y \<in> set acc \<union> set ys.
             sortCompare (cmp x y) < 0 \<longleftrightarrow> key y < key x"
    for acc ys
    using that
  proof (induction ys arbitrary: acc)
    case Nil
    then show ?case by simp
  next
    case (Cons y ys)
    have "sorted_wrt (\<lambda>a b. key b \<le> key a) (insertSorted cmp y acc)"
      using Cons.prems by (intro insertSorted_by_key) simp_all
    moreover have "set (insertSorted cmp y acc) \<union> set ys = set acc \<union> set (y # ys)"
      by (simp add: insertSorted_set)
    ultimately show ?case
      using Cons.IH [of "insertSorted cmp y acc"] Cons.prems(2) by simp
  qed
  from this [of "[]" xs] assms show ?thesis by (simp add: insertionSort_def)
qed


lemma comparefn_matched:
  assumes "index (src a) = Some ra" "index (src b) = Some rb"
  shows "sortCompare (comparefn index a b) < 0 \<longleftrightarrow>
           resourceSizeOrZero index b < resourceSizeOrZero index a"
  by (simp add: comparefn_def resourceSizeOrZero_def assms)

text \<open>When every element has a record, the sort step orders by descending size.\<close>

lemma sortElements_descending_when_matched:
  assumes "\<forall>e \<in> set elements. index (src e) \<noteq> None"
  shows "sorted_wrt (\<lambda>a b. resourceSizeOrZero index b \<le> resourceSizeOrZero index a)
           (sortElements insertionSort index elements)"
  unfolding sortElements_def
proof (rule insertionSort_by_key, intro ballI)
  fix a b
  assume "a \<in> set elements" "b \<in> set elements"
  with assms obtain ra rb where "index (src a) = Some ra" "index (src b) = Some rb"
    by blast
  then show "sortCompare (comparefn index a b) < 0 \<longleftrightarrow>
           resourceSizeOrZero index b < resourceSizeOrZero index a"
    by (rule comparefn_matched)
qed

subsection \<open>The pass\<close>

lemma promiseAll_issued: "issued (snd (promiseAll driver calls g)) = issued g @ calls"
proof (induction calls arbitrary: g)
  case Nil
  show ?case by simp
next
  case (Cons call calls)
  show ?case
    using Cons [of "snd (sendCommand driver call g)"]
    by (simp add: split_beta sendCommand_def await_issued)
qed

lemma promiseAll_state:
  "warnings (snd (promiseAll driver calls g)) = warnings g"
  "skippedCount (snd (promiseAll driver calls g)) = skippedCount g"
proof (induction calls arbitrary: g)
  case Nil
  {
    case 1
    show ?case by simp
  next
    case 2
    show ?case by simp
  }
next
  case (Cons call calls)
  {
    case 1
    show ?case
      using Cons.IH(1) [of "snd (sendCommand driver call g)"]
      by (simp add: split_beta sendCommand_def await_frame)
  next
    case 2
    show ?case
      using Cons.IH(2) [of "snd (sendCommand driver call g)"]
      by (simp add: split_beta sendCommand_def await_frame)
  }
qed

lemma afterPass_after_scan:
  assumes "await driver Evaluate_collectImageElementInfo (collectImageElementInfo driver) g
             = (Inr elements, g1)"
    and "promiseAll driver [DOM_enable, CSS_enable, DOM_getDocument] g1 = (Inr u, g2)"
  shows "afterPass arraySort driver networkRecords g =
     (case enrichElements driver (indexedNetworkRecords networkRecords)
             (sortElements arraySort (indexedNetworkRecords networkRecords) elements) (loopStart g2) of
        (Inl err, g4) \<Rightarrow> (Inl err, g4)
      | (Inr enriched, g4) \<Rightarrow>
          (case promiseAll driver [DOM_disable, CSS_disable] (logSkipped (length enriched) g4) of
             (Inl err, g6) \<Rightarrow> (Inl err, g6)
           | (Inr u, g6) \<Rightarrow> (Inr enriched, g6)))"
  by (simp only: afterPass_def Let_def assms prod.case sum.case loopStart_def logSkipped_def)

lemma afterPass_scan_failed:
  assumes "await driver Evaluate_collectImageElementInfo (collectImageElementInfo driver) g
             = (Inl err, g1)"
  shows "afterPass arraySort driver networkRecords g = (Inl err, g1)"
  by (simp only: afterPass_def Let_def assms prod.case sum.case)

lemma afterPass_enable_failed:
  assumes "await driver Evaluate_collectImageElementInfo (collectImageElementInfo driver) g
             = (Inr elements, g1)"
    and "promiseAll driver [DOM_enable, CSS_enable, DOM_getDocument] g1 = (Inl err, g2)"
  shows "afterPass arraySort driver networkRecords g = (Inl err, g2)"
  by (simp only: afterPass_def Let_def assms prod.case sum.case)

lemma afterPass_completed:
  assumes "afterPass arraySort driver networkRecords g = (Inr out, g')"
  obtains elements g1 g2 g4 where
    "await driver Evaluate_collectImageElementInfo (collectImageElementInfo driver) g
       = (Inr elements, g1)"
    "promiseAll driver [DOM_enable, CSS_enable, DOM_getDocument] g1 = (Inr (), g2)"
    "enrichElements driver (indexedNetworkRecords networkRecords)
       (sortElements arraySort (indexedNetworkRecords networkRecords) elements) (loopStart g2) = (Inr out, g4)"
    "promiseAll driver [DOM_disable, CSS_disable] (logSkipped (length out) g4) = (Inr (), g')"
proof -
  obtain r1 g1 where scan:
    "await driver Evaluate_collectImageElementInfo (collectImageElementInfo driver) g = (r1, g1)"
    by (cases "await driver Evaluate_collectImageElementInfo (collectImageElementInfo driver) g")
  obtain elements where r1: "r1 = Inr elements"
  proof (cases r1)
    case (Inl err)
    with afterPass_scan_failed [of driver g err g1 arraySort networkRecords] scan assms
    show ?thesis by simp
  next
    case (Inr elements)
    with that show ?thesis .
  qed
  obtain r2 g2 where enable:
    "promiseAll driver [DOM_enable, CSS_enable, DOM_getDocument] g1 = (r2, g2)"
    by (cases "promiseAll driver [DOM_enable, CSS_enable, DOM_getDocument] g1")
  have r2: "r2 = Inr ()"
  proof (cases r2)
    case (Inl err)
    with afterPass_enable_failed [of driver g elements g1 err g2 arraySort networkRecords] scan r1 enable assms
    show ?thesis by simp
  next
    case (Inr u)
    then show ?thesis by simp
  qed
  note unfolded = afterPass_after_scan [OF scan [unfolded r1] enable [unfolded r2], of arraySort networkRecords]
  obtain r3 g4 where loop:
    "enrichElements driver (indexedNetworkRecords networkRecords)
       (sortElements arraySort (indexedNetworkRecords networkRecords) elements) (loopStart g2) = (r3, g4)"
    by (cases "enrichElements driver (indexedNetworkRecords networkRecords)
       (sortElements arraySort (indexedNetworkRecords networkRecords) elements) (loopStart g2)")
  obtain enriched where r3: "r3 = Inr enriched"
    using assms unfolded loop by (cases r3) simp_all
  obtain r5 g6 where disable:
    "promiseAll driver [DOM_disable, CSS_disable] (logSkipped (length enriched) g4) = (r5, g6)"
    by (cases "promiseAll driver [DOM_disable, CSS_disable] (logSkipped (length enriched) g4)")
  have "r5 = Inr () \<and> enriched = out \<and> g6 = g'"
    using assms unfolded loop r3 disable by (cases r5) simp_all
  with scan r1 enable r2 loop r3 disable that show thesis by simp
qed

lemma count_list_per_element:
  assumes "\<forall>c \<in> set calls. perElementCall c" and "\<not> perElementCall x"
  shows "count_list calls x = 0"
  using assms by (auto simp add: count_list_0_iff)

subsection \<open>The sample passes\<close>

text \<open>
  A page of three elements and the records of two of them, gathered by a browser whose
  timer fires when six calls have been answered, the array sorted by the insertion sort:
  the background image and the first image begin enrichment, the third element is
  skipped. On a second page the connection fails at the first node lookup.
\<close>

lemma sampleScan:
  "await (scriptedBrowser b page) Evaluate_collectImageElementInfo
      (collectImageElementInfo (scriptedBrowser b page)) freshGatherer =
     (Inr page, freshGatherer\<lparr> env := 1, issued := [Evaluate_collectImageElementInfo],
        reachedGatheringBudget := b \<le> 1 \<rparr>)"
  by (simp add: await_def scriptedBrowser_def freshGatherer_def)

lemma sampleEnable:
  "promiseAll (scriptedBrowser b page) [DOM_enable, CSS_enable, DOM_getDocument]
      (freshGatherer\<lparr> env := 1, issued := [Evaluate_collectImageElementInfo],
        reachedGatheringBudget := b \<le> 1 \<rparr>) =
     (Inr (), freshGatherer\<lparr> env := 4,
        issued := [Evaluate_collectImageElementInfo, DOM_enable, CSS_enable, DOM_getDocument],
        reachedGatheringBudget := b \<le> 4 \<rparr>)"
  by (auto simp add: sendCommand_def await_def scriptedBrowser_def freshGatherer_def)

lemma sampleIndex:
  "indexedNetworkRecords sampleRecords =
     [''http://e/a.png'' \<mapsto> sampleRecord ''http://e/a.png'' 500,
      ''http://e/b.jpg'' \<mapsto> sampleRecord ''http://e/b.jpg'' 2000]"
  by (simp add: sampleRecords_def indexedNetworkRecords_def indexRecord_def isImage_iff
      sampleRecord_def)

lemma sampleSorted:
  "sortElements insertionSort (indexedNetworkRecords sampleRecords) samplePage =
     [sampleBackground ''http://e/b.jpg'' ''1,HTML,1,BODY,1,DIV'',
      sampleImage ''http://e/a.png'' ''1,HTML,1,BODY,0,IMG'',
      sampleImage ''http://e/c.png'' ''1,HTML,1,BODY,2,IMG'']"
  unfolding sampleIndex
  by (simp add: sortElements_def insertionSort_def comparefn_def samplePage_def sampleRecord_def
      sampleImage_def sampleBackground_def)

lemma samplePass:
  "afterPass insertionSort (scriptedBrowser 6 samplePage) sampleRecords freshGatherer =
     (Inr [(sampleBackground ''http://e/b.jpg'' ''1,HTML,1,BODY,1,DIV'')
             \<lparr> naturalWidth := Some 640, naturalHeight := Some 480,
               elementMimeType := Some ''image/png'' \<rparr>,
           (sampleImage ''http://e/a.png'' ''1,HTML,1,BODY,0,IMG'')
             \<lparr> cssWidth := Some ''10'', cssHeight := Some ''auto'',
               privateCssSizing := Some (NotNull ''10'', NotNull ''auto''),
               elementMimeType := Some ''image/png'' \<rparr>,
           sampleImage ''http://e/c.png'' ''1,HTML,1,BODY,2,IMG''],
      \<lparr> env = 9,
        issued = [Evaluate_collectImageElementInfo, DOM_enable, CSS_enable, DOM_getDocument,
                  SetNextProtocolTimeout 250, Evaluate_determineNaturalSize ''http://e/b.jpg'',
                  DOM_pushNodeByPathToFrontend ''1,HTML,1,BODY,0,IMG'',
                  CSS_getMatchedStylesForNode 7, DOM_disable, CSS_disable],
        naturalSizeCache = [(''http://e/b.jpg'', 640, 480)],
        reachedGatheringBudget = True, skippedCount = 1, warnings = [(1, 3)] \<rparr>)"
proof -
  let ?driver = "scriptedBrowser 6 samplePage"
  have scan: "await ?driver Evaluate_collectImageElementInfo (collectImageElementInfo ?driver)
      freshGatherer = (Inr samplePage, freshGatherer\<lparr> env := 1, issued := [Evaluate_collectImageElementInfo] \<rparr>)"
    by (simp add: await_def scriptedBrowser_def freshGatherer_def)
  have enable: "promiseAll ?driver [DOM_enable, CSS_enable, DOM_getDocument]
      (freshGatherer\<lparr> env := 1, issued := [Evaluate_collectImageElementInfo] \<rparr>) =
      (Inr (), freshGatherer\<lparr> env := 4,
         issued := [Evaluate_collectImageElementInfo, DOM_enable, CSS_enable, DOM_getDocument] \<rparr>)"
    by (simp add: sendCommand_def await_def scriptedBrowser_def freshGatherer_def)
  show ?thesis
    unfolding afterPass_after_scan [OF scan enable] sampleSorted
    unfolding sampleIndex
    by (simp add: enrichElement_def fetchSourceRules_def fetchElementWithSizeInformation_def
        await_def sendCommand_def setNextProtocolTimeout_def catchNoNode_def cacheSet_def
        assignSize_def loopStart_def logSkipped_def scriptedBrowser_def freshGatherer_def
        sampleImage_def sampleBackground_def sampleRecord_def sampleStyles_def
        getEffectiveSizingRule_def findSizeDeclaration_def findMostSpecificCSSRule_def
        findMostSpecificMatchedCSSRule_def moreSpecific_def Let_def)
qed

lemma sampleBegun:
  "begun (scriptedBrowser 6 samplePage) (indexedNetworkRecords sampleRecords)
     (sortElements insertionSort (indexedNetworkRecords sampleRecords) samplePage)
     (loopStart (freshGatherer\<lparr> env := 4,
        issued := [Evaluate_collectImageElementInfo, DOM_enable, CSS_enable, DOM_getDocument],
        reachedGatheringBudget := (6::nat) \<le> 4 \<rparr>)) = 2"
  unfolding sampleSorted
  unfolding sampleIndex
  by (simp add: enrichElement_def fetchSourceRules_def fetchElementWithSizeInformation_def
      await_def setNextProtocolTimeout_def catchNoNode_def cacheSet_def
      assignSize_def loopStart_def scriptedBrowser_def freshGatherer_def
      sampleImage_def sampleBackground_def sampleRecord_def sampleStyles_def
      getEffectiveSizingRule_def findSizeDeclaration_def findMostSpecificCSSRule_def
      findMostSpecificMatchedCSSRule_def moreSpecific_def Let_def)

lemma brokenPass:
  "afterPass insertionSort (scriptedBrowser 100 brokenPage) sampleRecords freshGatherer =
     (Inl (Error ''Target closed''),
      freshGatherer\<lparr> env := 5,
        issued := [Evaluate_collectImageElementInfo, DOM_enable, CSS_enable, DOM_getDocument,
                   DOM_pushNodeByPathToFrontend ''closed''] \<rparr>)"
proof -
  have sorted: "sortElements insertionSort (indexedNetworkRecords sampleRecords) brokenPage = brokenPage"
    by (simp add: sortElements_def insertionSort_def brokenPage_def)
  have closed: "\<not> reNoNodeFound ''Target closed''"
    by (simp add: reNoNodeFound_def regexTest_def dot_def anyChar_def lineTerminator_def)
  show ?thesis
    unfolding afterPass_after_scan [OF sampleScan sampleEnable] sorted
    unfolding sampleIndex
    by (simp add: enrichElement_def fetchSourceRules_def await_def catchNoNode_def closed
        loopStart_def scriptedBrowser_def freshGatherer_def brokenPage_def
        sampleImage_def sampleRecord_def Let_def)
qed

lemma sampleReached:
  "env (snd (enrichElements (scriptedBrowser 6 samplePage) (indexedNetworkRecords sampleRecords)
     (take (Suc 0) (sortElements insertionSort (indexedNetworkRecords sampleRecords) samplePage))
     (loopStart (freshGatherer\<lparr> env := 4,
        issued := [Evaluate_collectImageElementInfo, DOM_enable, CSS_enable, DOM_getDocument],
        reachedGatheringBudget := (6::nat) \<le> 4 \<rparr>)))) = 5"
  unfolding sampleSorted
  unfolding sampleIndex
  by (simp add: enrichElement_def fetchElementWithSizeInformation_def
      await_def setNextProtocolTimeout_def cacheSet_def
      assignSize_def loopStart_def scriptedBrowser_def freshGatherer_def
      sampleImage_def sampleBackground_def sampleRecord_def Let_def)

lemma sampleEffectiveSizing:
  "getEffectiveSizingRule sampleStyles ''width'' = NotNull ''10''"
  "getEffectiveSizingRule sampleStyles ''height'' = NotNull ''auto''"
  by (simp_all add: sampleStyles_def getEffectiveSizingRule_def findSizeDeclaration_def
      findMostSpecificCSSRule_def findMostSpecificMatchedCSSRule_def moreSpecific_def Let_def)


section \<open>The claims\<close>

subsection \<open>The natural-size cache\<close>

text \<open>
  C1: the claim is that a second resolution of a URL is served from the cache without
  a protocol call. In the code the cache-hit branch copies the cached pair and then
  falls through to the probe. Here a background image is resolved, which fills the
  cache, and a second element with the same URL is resolved next: the probe is issued
  twice for the one URL.
\<close>

theorem cache_hit_probes_again:
  "(case fetchElementWithSizeInformation (scriptedBrowser 100 [])
           (sampleBackground ''http://e/b.jpg'' ''1,HTML,1,BODY,0,DIV'') freshGatherer of
      (element1, g1) \<Rightarrow>
        map_of (naturalSizeCache g1) ''http://e/b.jpg'' = Some (640, 480) \<and>
        probes (issued g1) = [''http://e/b.jpg''] \<and>
        probes (issued (snd (fetchElementWithSizeInformation (scriptedBrowser 100 [])
           (sampleBackground ''http://e/b.jpg'' ''1,HTML,1,BODY,1,DIV'') g1)))
          = [''http://e/b.jpg'', ''http://e/b.jpg''])"
  by (simp add: fetchElementWithSizeInformation_def await_def setNextProtocolTimeout_def Let_def
      scriptedBrowser_def freshGatherer_def sampleBackground_def sampleImage_def cacheSet_def
      assignSize_def probes_def map_filter_simps)

subsection \<open>The sort step\<close>

text \<open>
  C2: the claim is that the sorted list is non-increasing in the \<^verbatim>\<open>resourceSize\<close> of
  the matching record, an element without a record counting as \<open>0\<close>. The comparator
  yields \<^verbatim>\<open>NaN\<close> whenever one of the two elements has no record, which the sort reads
  as "equal". On an element without a record followed by a matched element of 2000 bytes
  every comparison is a tie, so whatever the engine, its sort being stable, the element
  without a record stays in front. Only where every element has a record is the order
  the claimed one.
\<close>

theorem sort_keeps_unmatched_first:
  assumes "keepsTies arraySort"
  shows "map (resourceSizeOrZero (indexedNetworkRecords [sampleRecord ''http://e/b.jpg'' 2000]))
     (sortElements arraySort (indexedNetworkRecords [sampleRecord ''http://e/b.jpg'' 2000])
        [sampleImage ''http://e/unknown.png'' ''1,HTML,1,BODY,0,IMG'',
         sampleBackground ''http://e/b.jpg'' ''1,HTML,1,BODY,1,DIV''])
   = [0, 2000]"
proof -
  let ?index = "indexedNetworkRecords [sampleRecord ''http://e/b.jpg'' 2000]"
  let ?elements = "[sampleImage ''http://e/unknown.png'' ''1,HTML,1,BODY,0,IMG'',
         sampleBackground ''http://e/b.jpg'' ''1,HTML,1,BODY,1,DIV'']"
  have ties: "\<forall>x \<in> set ?elements. \<forall>y \<in> set ?elements. sortCompare (comparefn ?index x y) = 0"
    by (simp add: comparefn_def indexedNetworkRecords_def indexRecord_def isImage_iff
        sampleRecord_def sampleImage_def sampleBackground_def Let_def)
  with assms have "arraySort (comparefn ?index) ?elements = ?elements"
    unfolding keepsTies_def by blast
  then show ?thesis
    by (simp add: sortElements_def resourceSizeOrZero_def
        indexedNetworkRecords_def indexRecord_def isImage_iff sampleRecord_def
        sampleImage_def sampleBackground_def Let_def)
qed

theorem sort_keeps_unmatched_first_witness:
  "keepsTies (insertionSort :: arraySortMethod) \<and>
   map (resourceSizeOrZero (indexedNetworkRecords [sampleRecord ''http://e/b.jpg'' 2000]))
     (sortElements insertionSort (indexedNetworkRecords [sampleRecord ''http://e/b.jpg'' 2000])
        [sampleImage ''http://e/unknown.png'' ''1,HTML,1,BODY,0,IMG'',
         sampleBackground ''http://e/b.jpg'' ''1,HTML,1,BODY,1,DIV''])
   = [0, 2000]"
  using sort_keeps_unmatched_first [OF insertionSort_keepsTies] insertionSort_keepsTies
  by (intro conjI)

subsection \<open>Which elements are probed\<close>

text \<open>
  C3: the claim is that an element without a matching network record is never probed.
  The guard of the loop tests \<^verbatim>\<open>networkRecord\<close>, which is the record or the empty object
  and so always truthy: a CSS background image whose URL is not in the index is probed
  while the budget is unexpired.
\<close>

theorem unmatched_background_is_probed:
  "Map.empty (src (sampleBackground ''http://e/bg.png'' ''1,HTML,1,BODY,0,DIV'')) = None \<and>
   \<not> reachedGatheringBudget freshGatherer \<and>
   probes (issued (snd (enrichElement (scriptedBrowser 100 []) Map.empty
      (sampleBackground ''http://e/bg.png'' ''1,HTML,1,BODY,0,DIV'') freshGatherer)))
     = [''http://e/bg.png'']"
  by (simp add: enrichElement_def fetchElementWithSizeInformation_def await_def
      setNextProtocolTimeout_def Let_def scriptedBrowser_def freshGatherer_def
      sampleBackground_def sampleImage_def probes_def map_filter_simps)

subsection \<open>Degradation under the budget\<close>

text \<open>
  C4: take a pass that completes, let \<open>N\<close> be the number of scanned elements, the
  sorted list the array as the engine's sort leaves it (the elements it held before, in
  the engine's order), and \<open>K\<close> the number of elements of the sorted list whose
  enrichment begins before the deadline is seen. The output has \<open>N\<close> elements, the
  scanned ones in sorted order, and every element carries the MIME type of the record that
  matches its \<^verbatim>\<open>src\<close>, if there is one. Each of the first \<open>K\<close> elements is reached
  with the budget unexpired, in the state that the loop over the elements before it
  leaves. The node lookup of the CSS sizing resolver is issued for it exactly when it is
  neither in a shadow DOM nor a CSS image, and when the lookup and the matched-styles call
  answer, the element carries the effective width and height of that answer. The probe
  for its \<^verbatim>\<open>src\<close> is issued exactly when it is a CSS image, inside a
  \<^verbatim>\<open>picture\<close> or has a \<^verbatim>\<open>srcset\<close>, and when the probe answers, the element carries
  the natural size of that answer. The elements after the first \<open>K\<close> are the scanned
  elements with nothing but the MIME type attached, and nothing is issued for them: after
  the state in which the loop reaches element \<open>K\<close> only the two disabling commands
  follow. The skipped counter ends at \<open>N - K\<close>; and when a warning is logged it
  reports \<open>N - K\<close> skipped out of \<open>N\<close>, which happens whenever \<open>K < N\<close>.
\<close>

theorem budget_degradation:
  assumes scan: "await driver Evaluate_collectImageElementInfo (collectImageElementInfo driver) g
                   = (Inr elements, g1)"
    and enable: "promiseAll driver [DOM_enable, CSS_enable, DOM_getDocument] g1 = (ok, g2)"
    and pass: "afterPass arraySort driver networkRecords g = (Inr out, g')"
    and rearranged: "mset (sortElements arraySort (indexedNetworkRecords networkRecords) elements)
                       = mset elements"
  shows "let index = indexedNetworkRecords networkRecords;
             sorted = sortElements arraySort index elements;
             N = length elements;
             K = begun driver index sorted (loopStart g2);
             reached = (\<lambda>i. snd (enrichElements driver index (take i sorted) (loopStart g2)))
         in K \<le> N \<and> length out = N \<and>
            mset (map node out) = mset (map node elements) \<and>
            map node out = map node sorted \<and>
            map elementMimeType out = map (\<lambda>e. map_option mimeType (index (src e))) sorted \<and>
            (\<forall>i < K.
               \<not> reachedGatheringBudget (reached i) \<and>
               (DOM_pushNodeByPathToFrontend (devtoolsNodePath (node (sorted ! i)))
                  \<in> set (callsSince (reached i) (reached (Suc i)))) =
                 (\<not> isInShadowDOM (sorted ! i) \<and> \<not> isCss (sorted ! i)) \<and>
               (\<forall>nodeId env1 matched env2.
                  \<not> isInShadowDOM (sorted ! i) \<and> \<not> isCss (sorted ! i) \<and>
                  pushNodeByPathToFrontend driver (devtoolsNodePath (node (sorted ! i)))
                    (env (reached i)) = (Inr nodeId, env1) \<and> nodeId \<noteq> 0 \<and>
                  getMatchedStylesForNode driver nodeId env1 = (Inr matched, env2) \<longrightarrow>
                    cssWidth (out ! i) = nullToUndefined (getEffectiveSizingRule matched ''width'') \<and>
                    cssHeight (out ! i) = nullToUndefined (getEffectiveSizingRule matched ''height'') \<and>
                    privateCssSizing (out ! i) =
                      Some (getEffectiveSizingRule matched ''width'',
                            getEffectiveSizingRule matched ''height'')) \<and>
               probes (callsSince (reached i) (reached (Suc i))) =
                 (if isPicture (sorted ! i) \<or> isCss (sorted ! i) \<or> srcset (sorted ! i) \<noteq> []
                  then [src (sorted ! i)] else []) \<and>
               (\<forall>answer env'.
                  (isPicture (sorted ! i) \<or> isCss (sorted ! i) \<or> srcset (sorted ! i) \<noteq> []) \<and>
                  determineNaturalSize driver (src (sorted ! i))
                    (env (snd (sourceRulesStep driver index (sorted ! i) (reached i))))
                    = (Inr answer, env') \<longrightarrow>
                    naturalWidth (out ! i) = Some (fst answer) \<and>
                    naturalHeight (out ! i) = Some (snd answer))) \<and>
            drop K out = map (withMimeType index) (drop K sorted) \<and>
            callsSince (reached K) g' = [DOM_disable, CSS_disable] \<and>
            skippedCount g' = N - K \<and>
            (warnings g' = warnings g \<or> warnings g' = warnings g @ [(N - K, N)]) \<and>
            (K < N \<longrightarrow> warnings g' = warnings g @ [(N - K, N)])"
proof -
  let ?index = "indexedNetworkRecords networkRecords"
  let ?sorted = "sortElements arraySort ?index elements"
  let ?K = "begun driver ?index ?sorted (loopStart g2)"
  let ?reached = "\<lambda>i. snd (enrichElements driver ?index (take i ?sorted) (loopStart g2))"
  from afterPass_completed [OF pass] scan enable obtain g4 where
    loop: "enrichElements driver ?index ?sorted (loopStart g2) = (Inr out, g4)" and
    disable: "promiseAll driver [DOM_disable, CSS_disable] (logSkipped (length out) g4) = (Inr (), g')"
    by auto
  note budget = enrichElements_budget [OF loop]
  note keeps = enrichElements_keeps [OF loop]
  have n: "length ?sorted = length elements"
    using rearranged by (metis size_mset)
  have len: "length out = length elements"
    using budget n by simp
  have K: "?K \<le> length elements"
    using budget n by simp
  have perm: "mset (map node out) = mset (map node elements)"
    using keeps rearranged by (metis mset_map)
  have nodes: "map node out = map node ?sorted"
    using keeps by simp
  have mimes: "map elementMimeType out = map (\<lambda>e. map_option mimeType (?index (src e))) ?sorted"
    using keeps by simp
  have rest: "drop ?K out = map (withMimeType ?index) (drop ?K ?sorted)"
    using budget by simp
  have first: "\<not> reachedGatheringBudget (?reached i) \<and>
       (DOM_pushNodeByPathToFrontend (devtoolsNodePath (node (?sorted ! i)))
          \<in> set (callsSince (?reached i) (?reached (Suc i)))) =
         (\<not> isInShadowDOM (?sorted ! i) \<and> \<not> isCss (?sorted ! i)) \<and>
       (\<forall>nodeId env1 matched env2.
          \<not> isInShadowDOM (?sorted ! i) \<and> \<not> isCss (?sorted ! i) \<and>
          pushNodeByPathToFrontend driver (devtoolsNodePath (node (?sorted ! i)))
            (env (?reached i)) = (Inr nodeId, env1) \<and> nodeId \<noteq> 0 \<and>
          getMatchedStylesForNode driver nodeId env1 = (Inr matched, env2) \<longrightarrow>
            cssWidth (out ! i) = nullToUndefined (getEffectiveSizingRule matched ''width'') \<and>
            cssHeight (out ! i) = nullToUndefined (getEffectiveSizingRule matched ''height'') \<and>
            privateCssSizing (out ! i) =
              Some (getEffectiveSizingRule matched ''width'',
                    getEffectiveSizingRule matched ''height'')) \<and>
       probes (callsSince (?reached i) (?reached (Suc i))) =
         (if isPicture (?sorted ! i) \<or> isCss (?sorted ! i) \<or> srcset (?sorted ! i) \<noteq> []
          then [src (?sorted ! i)] else []) \<and>
       (\<forall>answer env'.
          (isPicture (?sorted ! i) \<or> isCss (?sorted ! i) \<or> srcset (?sorted ! i) \<noteq> []) \<and>
          determineNaturalSize driver (src (?sorted ! i))
            (env (snd (sourceRulesStep driver ?index (?sorted ! i) (?reached i))))
            = (Inr answer, env') \<longrightarrow>
            naturalWidth (out ! i) = Some (fst answer) \<and>
            naturalHeight (out ! i) = Some (snd answer))"
    if "i < ?K" for i
  proof -
    from enrichElements_begun_nth [OF loop that]
    have unexpired: "\<not> reachedGatheringBudget (?reached i)"
      and body: "enrichElement driver ?index (?sorted ! i) (?reached i)
                   = (Inr (out ! i), ?reached (Suc i))"
      by simp_all
    note e = enrichElement_enriches [OF unexpired body]
    from unexpired e(1) e(2) e(3) e(4) show ?thesis by blast
  qed
  have w0: "warnings g1 = warnings g"
    using await_frame(3) [of driver Evaluate_collectImageElementInfo "collectImageElementInfo driver" g]
      scan by simp
  have w2: "warnings g2 = warnings g1"
    using promiseAll_state(1) [of driver "[DOM_enable, CSS_enable, DOM_getDocument]" g1] enable
    by simp
  have w4: "warnings g4 = warnings g"
    using enrichElements_state(1) [of driver ?index ?sorted "loopStart g2"] loop w0 w2
    by (simp add: loopStart_def)
  have w': "warnings g' = warnings (logSkipped (length out) g4)"
    using promiseAll_state(1) [of driver "[DOM_disable, CSS_disable]" "logSkipped (length out) g4"]
      disable by simp
  have i': "issued g' = issued g4 @ [DOM_disable, CSS_disable]"
    using promiseAll_issued [of driver "[DOM_disable, CSS_disable]" "logSkipped (length out) g4"]
      disable by (simp add: logSkipped_def)
  have after: "callsSince (?reached ?K) g' = [DOM_disable, CSS_disable]"
    by (rule callsSince_append) (simp add: i' enrichElements_begun_issued [OF loop])
  have skipped: "skippedCount g4 = length elements - ?K"
    using budget n by (simp add: loopStart_def)
  have fired: "?K < length elements \<longrightarrow> reachedGatheringBudget g4"
    using budget n by simp
  have log1: "warnings g' = warnings g \<or>
      warnings g' = warnings g @ [(length elements - ?K, length elements)]"
    using w' w4 skipped len by (simp add: logSkipped_def)
  have log2: "?K < length elements \<longrightarrow>
      warnings g' = warnings g @ [(length elements - ?K, length elements)]"
    using w' w4 skipped len fired by (simp add: logSkipped_def)
  have counted: "skippedCount g' = length elements - ?K"
    using promiseAll_state(2) [of driver "[DOM_disable, CSS_disable]" "logSkipped (length out) g4"]
      disable skipped by (simp add: logSkipped_def)
  from first have firstK: "\<forall>i < ?K.
       \<not> reachedGatheringBudget (?reached i) \<and>
       (DOM_pushNodeByPathToFrontend (devtoolsNodePath (node (?sorted ! i)))
          \<in> set (callsSince (?reached i) (?reached (Suc i)))) =
         (\<not> isInShadowDOM (?sorted ! i) \<and> \<not> isCss (?sorted ! i)) \<and>
       (\<forall>nodeId env1 matched env2.
          \<not> isInShadowDOM (?sorted ! i) \<and> \<not> isCss (?sorted ! i) \<and>
          pushNodeByPathToFrontend driver (devtoolsNodePath (node (?sorted ! i)))
            (env (?reached i)) = (Inr nodeId, env1) \<and> nodeId \<noteq> 0 \<and>
          getMatchedStylesForNode driver nodeId env1 = (Inr matched, env2) \<longrightarrow>
            cssWidth (out ! i) = nullToUndefined (getEffectiveSizingRule matched ''width'') \<and>
            cssHeight (out ! i) = nullToUndefined (getEffectiveSizingRule matched ''height'') \<and>
            privateCssSizing (out ! i) =
              Some (getEffectiveSizingRule matched ''width'',
                    getEffectiveSizingRule matched ''height'')) \<and>
       probes (callsSince (?reached i) (?reached (Suc i))) =
         (if isPicture (?sorted ! i) \<or> isCss (?sorted ! i) \<or> srcset (?sorted ! i) \<noteq> []
          then [src (?sorted ! i)] else []) \<and>
       (\<forall>answer env'.
          (isPicture (?sorted ! i) \<or> isCss (?sorted ! i) \<or> srcset (?sorted ! i) \<noteq> []) \<and>
          determineNaturalSize driver (src (?sorted ! i))
            (env (snd (sourceRulesStep driver ?index (?sorted ! i) (?reached i))))
            = (Inr answer, env') \<longrightarrow>
            naturalWidth (out ! i) = Some (fst answer) \<and>
            naturalHeight (out ! i) = Some (snd answer))"
    by blast
  show ?thesis
    unfolding Let_def
    by (rule conjI [OF K conjI [OF len conjI [OF perm conjI [OF nodes conjI [OF mimes
          conjI [OF firstK conjI [OF rest conjI [OF after conjI [OF counted conjI [OF log1 log2]]]]]]]]]])
qed

theorem budget_degradation_witness:
  "(\<exists>out g'. afterPass insertionSort (scriptedBrowser 6 samplePage) sampleRecords freshGatherer
               = (Inr out, g') \<and>
      length out = 3 \<and>
      map elementMimeType out = [Some ''image/png'', Some ''image/png'', None] \<and>
      naturalWidth (out ! 0) = Some 640 \<and> naturalHeight (out ! 0) = Some 480 \<and>
      cssWidth (out ! 1) = Some ''10'' \<and> cssHeight (out ! 1) = Some ''auto'' \<and>
      drop 2 out = [sampleImage ''http://e/c.png'' ''1,HTML,1,BODY,2,IMG''] \<and>
      skippedCount g' = 1 \<and> warnings g' = [(1, 3)])"
proof -
  let ?driver = "scriptedBrowser 6 samplePage"
  let ?index = "indexedNetworkRecords sampleRecords"
  let ?b = "sampleBackground ''http://e/b.jpg'' ''1,HTML,1,BODY,1,DIV''"
  let ?a = "sampleImage ''http://e/a.png'' ''1,HTML,1,BODY,0,IMG''"
  let ?c = "sampleImage ''http://e/c.png'' ''1,HTML,1,BODY,2,IMG''"
  let ?g2 = "freshGatherer\<lparr> env := 4,
        issued := [Evaluate_collectImageElementInfo, DOM_enable, CSS_enable, DOM_getDocument],
        reachedGatheringBudget := (6::nat) \<le> 4 \<rparr>"
  obtain out g' where pass:
    "afterPass insertionSort ?driver sampleRecords freshGatherer = (Inr out, g')"
    using samplePass by blast
  have rearranged: "mset (sortElements insertionSort ?index samplePage) = mset samplePage"
    by (simp add: sortElements_def insertionSort_mset)
  note t0 = budget_degradation [OF sampleScan sampleEnable pass rearranged,
      unfolded Let_def sampleBegun]
  note t = t0 [unfolded sampleSorted]
  have n: "length samplePage = 3" by (simp add: samplePage_def)
  have c: "withMimeType ?index ?c = ?c"
    unfolding sampleIndex by (simp add: withMimeType_def sampleImage_def)
  have mimes: "map (\<lambda>e. map_option mimeType (?index (src e))) [?b, ?a, ?c]
     = [Some ''image/png'', Some ''image/png'', None]"
    unfolding sampleIndex
    by (simp add: sampleImage_def sampleBackground_def sampleRecord_def)
  have w: "warnings freshGatherer = []" by (simp add: freshGatherer_def)
  from t have len: "length out = 3"
    and mime: "map elementMimeType out = [Some ''image/png'', Some ''image/png'', None]"
    and rest: "drop 2 out = [?c]"
    and skipped: "skippedCount g' = 1"
    and warned: "warnings g' = [(1, 3)]"
    unfolding n mimes w by (simp_all add: c)
  from t have first: "\<forall>i < 2.
      (\<forall>nodeId env1 matched env2.
          \<not> isInShadowDOM ([?b, ?a, ?c] ! i) \<and> \<not> isCss ([?b, ?a, ?c] ! i) \<and>
          pushNodeByPathToFrontend ?driver (devtoolsNodePath (node ([?b, ?a, ?c] ! i)))
            (env (snd (enrichElements ?driver ?index (take i [?b, ?a, ?c]) (loopStart ?g2))))
              = (Inr nodeId, env1) \<and> nodeId \<noteq> 0 \<and>
          getMatchedStylesForNode ?driver nodeId env1 = (Inr matched, env2) \<longrightarrow>
            cssWidth (out ! i) = nullToUndefined (getEffectiveSizingRule matched ''width'') \<and>
            cssHeight (out ! i) = nullToUndefined (getEffectiveSizingRule matched ''height'')) \<and>
      (\<forall>answer env'.
          (isPicture ([?b, ?a, ?c] ! i) \<or> isCss ([?b, ?a, ?c] ! i) \<or> srcset ([?b, ?a, ?c] ! i) \<noteq> []) \<and>
          determineNaturalSize ?driver (src ([?b, ?a, ?c] ! i))
            (env (snd (sourceRulesStep ?driver ?index ([?b, ?a, ?c] ! i)
               (snd (enrichElements ?driver ?index (take i [?b, ?a, ?c]) (loopStart ?g2))))))
            = (Inr answer, env') \<longrightarrow>
            naturalWidth (out ! i) = Some (fst answer) \<and>
            naturalHeight (out ! i) = Some (snd answer))"
    by blast
  have i0: "(0::nat) < 2" and i1: "Suc 0 < 2" by simp_all
  have probe: "(isPicture ([?b, ?a, ?c] ! 0) \<or> isCss ([?b, ?a, ?c] ! 0) \<or>
        srcset ([?b, ?a, ?c] ! 0) \<noteq> []) \<and>
      determineNaturalSize ?driver (src ([?b, ?a, ?c] ! 0))
        (env (snd (sourceRulesStep ?driver ?index ([?b, ?a, ?c] ! 0)
           (snd (enrichElements ?driver ?index (take 0 [?b, ?a, ?c]) (loopStart ?g2))))))
        = (Inr (640, 480), 5)"
    by (simp add: sourceRulesStep_def loopStart_def scriptedBrowser_def freshGatherer_def
        sampleBackground_def sampleImage_def)
  have rules: "\<not> isInShadowDOM ([?b, ?a, ?c] ! Suc 0) \<and> \<not> isCss ([?b, ?a, ?c] ! Suc 0) \<and>
      pushNodeByPathToFrontend ?driver (devtoolsNodePath (node ([?b, ?a, ?c] ! Suc 0)))
        (env (snd (enrichElements ?driver ?index (take (Suc 0) [?b, ?a, ?c]) (loopStart ?g2))))
          = (Inr 7, 6) \<and> (7::nat) \<noteq> 0 \<and>
      getMatchedStylesForNode ?driver 7 6 = (Inr sampleStyles, 7)"
    unfolding sampleReached [unfolded sampleSorted]
    by (simp add: scriptedBrowser_def sampleImage_def)
  from first [rule_format, OF i0, THEN conjunct2, rule_format, OF probe]
  have "naturalWidth (out ! 0) = Some 640 \<and> naturalHeight (out ! 0) = Some 480"
    by simp
  moreover from first [rule_format, OF i1, THEN conjunct1, rule_format, OF rules]
  have "cssWidth (out ! 1) = Some ''10'' \<and> cssHeight (out ! 1) = Some ''auto''"
    by (simp add: sampleEffectiveSizing)
  ultimately show ?thesis using pass len mime rest skipped warned by simp
qed

subsection \<open>The cascade of sizing rules\<close>

text \<open>
  C5 (as amended): the effective sizing rule is the inline declaration if the inline
  style declares the property with a non-empty value, otherwise the attribute-derived
  declaration if that style does, otherwise the declaration of a matched stylesheet rule
  of greatest specificity among those that do; when no source declares the property with
  a non-empty value the result is \<^verbatim>\<open>null\<close>, which the compatibility field shows as
  \<^verbatim>\<open>undefined\<close>. When both protocol calls succeed, \<^verbatim>\<open>fetchSourceRules\<close> writes the
  result for \<^verbatim>\<open>width\<close> and \<^verbatim>\<open>height\<close> into the structured pair and the two
  compatibility fields.
\<close>

theorem effective_sizing_precedence:
  "(declaresProperty (inlineStyle matched) property v \<longrightarrow>
      getEffectiveSizingRule matched property = NotNull v) \<and>
   (\<not> (\<exists>w. declaresProperty (inlineStyle matched) property w) \<and>
    declaresProperty (attributesStyle matched) property v \<longrightarrow>
      getEffectiveSizingRule matched property = NotNull v) \<and>
   (\<not> (\<exists>w. declaresProperty (inlineStyle matched) property w) \<and>
    \<not> (\<exists>w. declaresProperty (attributesStyle matched) property w) \<and>
    (\<exists>m \<in> set (ruleList matched). \<exists>w. declaresProperty (Some (ruleStyle m)) property w) \<longrightarrow>
      (\<exists>m \<in> set (ruleList matched). \<exists>w.
         declaresProperty (Some (ruleStyle m)) property w \<and>
         (\<forall>m' \<in> set (ruleList matched).
            (\<exists>w'. declaresProperty (Some (ruleStyle m')) property w') \<longrightarrow>
              specificity m' \<le> specificity m) \<and>
         getEffectiveSizingRule matched property = NotNull w)) \<and>
   (\<not> (\<exists>w. declaresProperty (inlineStyle matched) property w) \<and>
    \<not> (\<exists>w. declaresProperty (attributesStyle matched) property w) \<and>
    \<not> (\<exists>m \<in> set (ruleList matched). \<exists>w. declaresProperty (Some (ruleStyle m)) property w) \<longrightarrow>
      getEffectiveSizingRule matched property = Null \<and>
      nullToUndefined (getEffectiveSizingRule matched property) = None) \<and>
   (pushNodeByPathToFrontend driver path (env g) = (Inr nodeId, e1) \<and> nodeId \<noteq> 0 \<and>
    getMatchedStylesForNode driver nodeId e1 = (Inr matched, e2) \<longrightarrow>
      (\<exists>element' g'.
         fetchSourceRules driver path element g = (Inr element', g') \<and>
         privateCssSizing element' =
           Some (getEffectiveSizingRule matched ''width'', getEffectiveSizingRule matched ''height'') \<and>
         cssWidth element' = nullToUndefined (getEffectiveSizingRule matched ''width'') \<and>
         cssHeight element' = nullToUndefined (getEffectiveSizingRule matched ''height'')))"
proof -
  have inline: "declaresProperty (inlineStyle matched) property v \<longrightarrow>
      getEffectiveSizingRule matched property = NotNull v"
    by (simp add: getEffectiveSizingRule_def declaresProperty_def)
  have attribute: "\<not> (\<exists>w. declaresProperty (inlineStyle matched) property w) \<and>
    declaresProperty (attributesStyle matched) property v \<longrightarrow>
      getEffectiveSizingRule matched property = NotNull v"
  proof
    assume "\<not> (\<exists>w. declaresProperty (inlineStyle matched) property w) \<and>
      declaresProperty (attributesStyle matched) property v"
    then have "\<not> truthy (findSizeDeclaration (inlineStyle matched) property)"
      "findSizeDeclaration (attributesStyle matched) property = Some v" "v \<noteq> []"
      by (simp_all add: truthy_declares) (simp_all add: declaresProperty_def)
    then show "getEffectiveSizingRule matched property = NotNull v"
      by (simp add: getEffectiveSizingRule_def)
  qed
  have rule: "\<not> (\<exists>w. declaresProperty (inlineStyle matched) property w) \<and>
    \<not> (\<exists>w. declaresProperty (attributesStyle matched) property w) \<and>
    (\<exists>m \<in> set (ruleList matched). \<exists>w. declaresProperty (Some (ruleStyle m)) property w) \<longrightarrow>
      (\<exists>m \<in> set (ruleList matched). \<exists>w.
         declaresProperty (Some (ruleStyle m)) property w \<and>
         (\<forall>m' \<in> set (ruleList matched).
            (\<exists>w'. declaresProperty (Some (ruleStyle m')) property w') \<longrightarrow>
              specificity m' \<le> specificity m) \<and>
         getEffectiveSizingRule matched property = NotNull w)"
  proof
    assume a: "\<not> (\<exists>w. declaresProperty (inlineStyle matched) property w) \<and>
      \<not> (\<exists>w. declaresProperty (attributesStyle matched) property w) \<and>
      (\<exists>m \<in> set (ruleList matched). \<exists>w. declaresProperty (Some (ruleStyle m)) property w)"
    then have no: "\<not> truthy (findSizeDeclaration (inlineStyle matched) property)"
      "\<not> truthy (findSizeDeclaration (attributesStyle matched) property)"
      by (simp_all add: truthy_declares)
    from a findMostSpecificCSSRule_Some [of matched property]
    obtain m w where m: "m \<in> set (ruleList matched)"
      "declaresProperty (Some (ruleStyle m)) property w"
      "\<forall>m' \<in> set (ruleList matched).
          (\<exists>w'. declaresProperty (Some (ruleStyle m')) property w') \<longrightarrow>
            specificity m' \<le> specificity m"
      "findMostSpecificCSSRule (matchedCSSRules matched) property = Some w"
      by blast
    from m(2) have "w \<noteq> []" by (simp add: declaresProperty_def)
    with no m(4) have "getEffectiveSizingRule matched property = NotNull w"
      by (simp add: getEffectiveSizingRule_def)
    with m show "\<exists>m \<in> set (ruleList matched). \<exists>w.
           declaresProperty (Some (ruleStyle m)) property w \<and>
           (\<forall>m' \<in> set (ruleList matched).
              (\<exists>w'. declaresProperty (Some (ruleStyle m')) property w') \<longrightarrow>
                specificity m' \<le> specificity m) \<and>
           getEffectiveSizingRule matched property = NotNull w"
      by blast
  qed
  have absent: "\<not> (\<exists>w. declaresProperty (inlineStyle matched) property w) \<and>
    \<not> (\<exists>w. declaresProperty (attributesStyle matched) property w) \<and>
    \<not> (\<exists>m \<in> set (ruleList matched). \<exists>w. declaresProperty (Some (ruleStyle m)) property w) \<longrightarrow>
      getEffectiveSizingRule matched property = Null \<and>
      nullToUndefined (getEffectiveSizingRule matched property) = None"
  proof
    assume a: "\<not> (\<exists>w. declaresProperty (inlineStyle matched) property w) \<and>
      \<not> (\<exists>w. declaresProperty (attributesStyle matched) property w) \<and>
      \<not> (\<exists>m \<in> set (ruleList matched). \<exists>w. declaresProperty (Some (ruleStyle m)) property w)"
    then have no: "\<not> truthy (findSizeDeclaration (inlineStyle matched) property)"
      "\<not> truthy (findSizeDeclaration (attributesStyle matched) property)"
      by (simp_all add: truthy_declares)
    from a have "\<not> truthy (findMostSpecificCSSRule (matchedCSSRules matched) property)"
      by (intro findMostSpecificCSSRule_None) simp
    with no have "getEffectiveSizingRule matched property = Null"
      by (simp add: getEffectiveSizingRule_def)
    then show "getEffectiveSizingRule matched property = Null \<and>
        nullToUndefined (getEffectiveSizingRule matched property) = None"
      by simp
  qed
  have written: "pushNodeByPathToFrontend driver path (env g) = (Inr nodeId, e1) \<and> nodeId \<noteq> 0 \<and>
    getMatchedStylesForNode driver nodeId e1 = (Inr matched, e2) \<longrightarrow>
      (\<exists>element' g'.
         fetchSourceRules driver path element g = (Inr element', g') \<and>
         privateCssSizing element' =
           Some (getEffectiveSizingRule matched ''width'', getEffectiveSizingRule matched ''height'') \<and>
         cssWidth element' = nullToUndefined (getEffectiveSizingRule matched ''width'') \<and>
         cssHeight element' = nullToUndefined (getEffectiveSizingRule matched ''height''))"
    by (simp add: fetchSourceRules_def await_def Let_def)
  show ?thesis
    by (rule conjI [OF inline conjI [OF attribute conjI [OF rule conjI [OF absent written]]]])
qed

theorem effective_sizing_precedence_witness:
  "getEffectiveSizingRule threeSources ''width'' = NotNull ''1px'' \<and>
   getEffectiveSizingRule (threeSources\<lparr> inlineStyle := None \<rparr>) ''width'' = NotNull ''2px'' \<and>
   (\<exists>w. getEffectiveSizingRule
          (threeSources\<lparr> inlineStyle := None, attributesStyle := None \<rparr>) ''width'' = NotNull w) \<and>
   getEffectiveSizingRule threeSources ''height'' = Null \<and>
   (\<exists>element' g'.
      fetchSourceRules (scriptedBrowser 100 []) ''1,HTML,1,BODY,0,IMG''
        (sampleImage ''http://e/a.png'' ''1,HTML,1,BODY,0,IMG'') freshGatherer = (Inr element', g') \<and>
      privateCssSizing element' = Some (NotNull ''10'', NotNull ''auto'') \<and>
      cssWidth element' = Some ''10'' \<and> cssHeight element' = Some ''auto'')"
proof -
  let ?noInline = "threeSources\<lparr> inlineStyle := None \<rparr>"
  let ?rulesOnly = "threeSources\<lparr> inlineStyle := None, attributesStyle := None \<rparr>"
  have d1: "declaresProperty (inlineStyle threeSources) ''width'' ''1px''"
    by (simp add: declaresProperty_def findSizeDeclaration_def threeSources_def oneDeclaration_def)
  have d2: "\<not> (\<exists>w. declaresProperty (inlineStyle ?noInline) ''width'' w) \<and>
      declaresProperty (attributesStyle ?noInline) ''width'' ''2px''"
    by (simp add: declaresProperty_def findSizeDeclaration_def threeSources_def oneDeclaration_def)
  have d3: "\<not> (\<exists>w. declaresProperty (inlineStyle ?rulesOnly) ''width'' w) \<and>
      \<not> (\<exists>w. declaresProperty (attributesStyle ?rulesOnly) ''width'' w) \<and>
      (\<exists>m \<in> set (ruleList ?rulesOnly). \<exists>w. declaresProperty (Some (ruleStyle m)) ''width'' w)"
    by (simp add: declaresProperty_def findSizeDeclaration_def threeSources_def oneDeclaration_def
        ruleList_def)
  have d4: "\<not> (\<exists>w. declaresProperty (inlineStyle threeSources) ''height'' w) \<and>
      \<not> (\<exists>w. declaresProperty (attributesStyle threeSources) ''height'' w) \<and>
      \<not> (\<exists>m \<in> set (ruleList threeSources). \<exists>w. declaresProperty (Some (ruleStyle m)) ''height'' w)"
    by (simp add: declaresProperty_def findSizeDeclaration_def threeSources_def oneDeclaration_def
        ruleList_def)
  have d5: "pushNodeByPathToFrontend (scriptedBrowser 100 []) ''1,HTML,1,BODY,0,IMG'' (env freshGatherer)
        = (Inr 7, 1) \<and> (7::nat) \<noteq> 0 \<and>
      getMatchedStylesForNode (scriptedBrowser 100 []) 7 1 = (Inr sampleStyles, 2)"
    by (simp add: scriptedBrowser_def freshGatherer_def)
  have sample: "getEffectiveSizingRule sampleStyles ''width'' = NotNull ''10''"
    "getEffectiveSizingRule sampleStyles ''height'' = NotNull ''auto''"
    by (simp_all add: sampleStyles_def getEffectiveSizingRule_def findSizeDeclaration_def
        findMostSpecificCSSRule_def findMostSpecificMatchedCSSRule_def moreSpecific_def)
  note inline = effective_sizing_precedence [of threeSources "''width''" "''1px''", THEN conjunct1]
  note attribute = effective_sizing_precedence [of ?noInline "''width''" "''2px''",
      THEN conjunct2, THEN conjunct1]
  note rule = effective_sizing_precedence [of ?rulesOnly "''width''",
      THEN conjunct2, THEN conjunct2, THEN conjunct1]
  note absent = effective_sizing_precedence [of threeSources "''height''",
      THEN conjunct2, THEN conjunct2, THEN conjunct2, THEN conjunct1]
  note written = effective_sizing_precedence [of sampleStyles "''width''" "''10''"
      "scriptedBrowser 100 []" "''1,HTML,1,BODY,0,IMG''" freshGatherer 7 1 2
      "sampleImage ''http://e/a.png'' ''1,HTML,1,BODY,0,IMG''",
      THEN conjunct2, THEN conjunct2, THEN conjunct2, THEN conjunct2]
  have 1: "getEffectiveSizingRule threeSources ''width'' = NotNull ''1px''"
    by (rule mp [OF inline d1])
  have 2: "getEffectiveSizingRule ?noInline ''width'' = NotNull ''2px''"
    by (rule mp [OF attribute d2])
  from mp [OF rule d3] obtain m w where "getEffectiveSizingRule ?rulesOnly ''width'' = NotNull w"
    by blast
  then have 3: "\<exists>w. getEffectiveSizingRule ?rulesOnly ''width'' = NotNull w" ..
  have 4: "getEffectiveSizingRule threeSources ''height'' = Null"
    by (rule mp [OF absent d4, THEN conjunct1])
  have 5: "\<exists>element' g'.
      fetchSourceRules (scriptedBrowser 100 []) ''1,HTML,1,BODY,0,IMG''
        (sampleImage ''http://e/a.png'' ''1,HTML,1,BODY,0,IMG'') freshGatherer = (Inr element', g') \<and>
      privateCssSizing element' = Some (NotNull ''10'', NotNull ''auto'') \<and>
      cssWidth element' = Some ''10'' \<and> cssHeight element' = Some ''auto''"
    using mp [OF written d5] unfolding sample nullToUndefined.simps .
  from 1 2 3 4 5 show ?thesis by (intro conjI)
qed

text \<open>
  The claim as worded gives an inline declaration precedence whatever its value. An
  inline \<^verbatim>\<open>width\<close> with an empty value is passed over for the attribute-derived one.
\<close>

theorem effective_sizing_counterexample:
  "findSizeDeclaration (inlineStyle emptyInlineWidth) ''width'' = Some [] \<and>
   getEffectiveSizingRule emptyInlineWidth ''width'' = NotNull ''100''"
  by (simp add: emptyInlineWidth_def oneDeclaration_def getEffectiveSizingRule_def
      findSizeDeclaration_def)

subsection \<open>Failures of the CSS sizing resolver\<close>

text \<open>
  C6: the source recognises the failure "the node no longer exists" by the test
  \<^verbatim>\<open>/No node.*found/\<close> on the message of the error: the message contains
  \<^verbatim>\<open>No node\<close> and later, on the same line, \<^verbatim>\<open>found\<close>. When either protocol call of
  \<^verbatim>\<open>fetchSourceRules\<close> is rejected with such a message, the resolver returns normally
  and leaves the element as it was; when the message does not match, the resolver
  rejects with that error; and a pass whose loop reaches, with the budget unexpired, an
  element for which the resolver rejects, rejects with the same error, whatever order
  the engine's sort has put the elements in. A node lookup that answers without a node
  identifier also leaves the element as it was.
\<close>

theorem source_rules_failures:
  "(pushNodeByPathToFrontend driver path (env g) = (Inl err, e1) \<and>
    reNoNodeFound (message err) \<longrightarrow>
      fst (fetchSourceRules driver path element g) = Inr element) \<and>
   (pushNodeByPathToFrontend driver path (env g) = (Inr nodeId, e1) \<and> nodeId \<noteq> 0 \<and>
    getMatchedStylesForNode driver nodeId e1 = (Inl err, e2) \<and>
    reNoNodeFound (message err) \<longrightarrow>
      fst (fetchSourceRules driver path element g) = Inr element) \<and>
   (pushNodeByPathToFrontend driver path (env g) = (Inl err, e1) \<and>
    \<not> reNoNodeFound (message err) \<longrightarrow>
      fst (fetchSourceRules driver path element g) = Inl err) \<and>
   (pushNodeByPathToFrontend driver path (env g) = (Inr nodeId, e1) \<and> nodeId \<noteq> 0 \<and>
    getMatchedStylesForNode driver nodeId e1 = (Inl err, e2) \<and>
    \<not> reNoNodeFound (message err) \<longrightarrow>
      fst (fetchSourceRules driver path element g) = Inl err) \<and>
   (await driver Evaluate_collectImageElementInfo (collectImageElementInfo driver) g0
      = (Inr elements, g1) \<and>
    promiseAll driver [DOM_enable, CSS_enable, DOM_getDocument] g1 = (Inr (), g2) \<and>
    sortElements arraySort (indexedNetworkRecords networkRecords) elements = before @ element # rest \<and>
    enrichElements driver (indexedNetworkRecords networkRecords) before (loopStart g2)
      = (Inr before', g) \<and>
    \<not> reachedGatheringBudget g \<and> \<not> isInShadowDOM element \<and> \<not> isCss element \<and>
    fst (fetchSourceRules driver (devtoolsNodePath (node element))
           (withMimeType (indexedNetworkRecords networkRecords) element) g) = Inl err \<longrightarrow>
      fst (afterPass arraySort driver networkRecords g0) = Inl err) \<and>
   (pushNodeByPathToFrontend driver path (env g) = (Inr 0, e1) \<longrightarrow>
      fst (fetchSourceRules driver path element g) = Inr element)"
proof -
  have noId: "pushNodeByPathToFrontend driver path (env g) = (Inr 0, e1) \<longrightarrow>
      fst (fetchSourceRules driver path element g) = Inr element"
    by (simp add: fetchSourceRules_def await_def)
  have silent1: "pushNodeByPathToFrontend driver path (env g) = (Inl err, e1) \<and>
    reNoNodeFound (message err) \<longrightarrow>
      fst (fetchSourceRules driver path element g) = Inr element"
    by (simp add: fetchSourceRules_def await_def catchNoNode_def)
  have silent2: "pushNodeByPathToFrontend driver path (env g) = (Inr nodeId, e1) \<and> nodeId \<noteq> 0 \<and>
    getMatchedStylesForNode driver nodeId e1 = (Inl err, e2) \<and>
    reNoNodeFound (message err) \<longrightarrow>
      fst (fetchSourceRules driver path element g) = Inr element"
    by (simp add: fetchSourceRules_def await_def catchNoNode_def)
  have fatal1: "pushNodeByPathToFrontend driver path (env g) = (Inl err, e1) \<and>
    \<not> reNoNodeFound (message err) \<longrightarrow>
      fst (fetchSourceRules driver path element g) = Inl err"
    by (simp add: fetchSourceRules_def await_def catchNoNode_def)
  have fatal2: "pushNodeByPathToFrontend driver path (env g) = (Inr nodeId, e1) \<and> nodeId \<noteq> 0 \<and>
    getMatchedStylesForNode driver nodeId e1 = (Inl err, e2) \<and>
    \<not> reNoNodeFound (message err) \<longrightarrow>
      fst (fetchSourceRules driver path element g) = Inl err"
    by (simp add: fetchSourceRules_def await_def catchNoNode_def)
  have abort: "await driver Evaluate_collectImageElementInfo (collectImageElementInfo driver) g0
      = (Inr elements, g1) \<and>
    promiseAll driver [DOM_enable, CSS_enable, DOM_getDocument] g1 = (Inr (), g2) \<and>
    sortElements arraySort (indexedNetworkRecords networkRecords) elements = before @ element # rest \<and>
    enrichElements driver (indexedNetworkRecords networkRecords) before (loopStart g2)
      = (Inr before', g) \<and>
    \<not> reachedGatheringBudget g \<and> \<not> isInShadowDOM element \<and> \<not> isCss element \<and>
    fst (fetchSourceRules driver (devtoolsNodePath (node element))
           (withMimeType (indexedNetworkRecords networkRecords) element) g) = Inl err \<longrightarrow>
      fst (afterPass arraySort driver networkRecords g0) = Inl err"
  proof
    let ?index = "indexedNetworkRecords networkRecords"
    assume a: "await driver Evaluate_collectImageElementInfo (collectImageElementInfo driver) g0
        = (Inr elements, g1) \<and>
      promiseAll driver [DOM_enable, CSS_enable, DOM_getDocument] g1 = (Inr (), g2) \<and>
      sortElements arraySort ?index elements = before @ element # rest \<and>
      enrichElements driver ?index before (loopStart g2) = (Inr before', g) \<and>
      \<not> reachedGatheringBudget g \<and> \<not> isInShadowDOM element \<and> \<not> isCss element \<and>
      fst (fetchSourceRules driver (devtoolsNodePath (node element))
             (withMimeType ?index element) g) = Inl err"
    then obtain g3 where f: "fetchSourceRules driver (devtoolsNodePath (node element))
             (withMimeType ?index element) g = (Inl err, g3)"
      by (cases "fetchSourceRules driver (devtoolsNodePath (node element))
             (withMimeType ?index element) g") simp
    from a f have "enrichElement driver ?index element g = (Inl err, g3)"
      by (intro enrichElement_fatal) simp_all
    with a have "enrichElements driver ?index (before @ element # rest) (loopStart g2) = (Inl err, g3)"
      by (intro enrichElements_fatal) simp_all
    with a have loop: "enrichElements driver ?index (sortElements arraySort ?index elements) (loopStart g2)
        = (Inl err, g3)"
      by simp
    from a have scan: "await driver Evaluate_collectImageElementInfo (collectImageElementInfo driver) g0
        = (Inr elements, g1)"
      and enable: "promiseAll driver [DOM_enable, CSS_enable, DOM_getDocument] g1 = (Inr (), g2)"
      by simp_all
    show "fst (afterPass arraySort driver networkRecords g0) = Inl err"
      unfolding afterPass_after_scan [OF scan enable] loop by simp
  qed
  show ?thesis
    by (rule conjI [OF silent1 conjI [OF silent2 conjI [OF fatal1 conjI [OF fatal2
          conjI [OF abort noId]]]]])
qed

theorem source_rules_failures_witness:
  "reNoNodeFound ''No node with given id found'' \<and>
   fst (fetchSourceRules (scriptedBrowser 100 []) ''gone''
          (sampleImage ''http://e/a.png'' ''gone'') freshGatherer)
     = Inr (sampleImage ''http://e/a.png'' ''gone'') \<and>
   \<not> reNoNodeFound ''Target closed'' \<and>
   fst (fetchSourceRules (scriptedBrowser 100 []) ''closed''
          (sampleImage ''http://e/a.png'' ''closed'') freshGatherer)
     = Inl (Error ''Target closed'') \<and>
   fst (afterPass insertionSort (scriptedBrowser 100 brokenPage) sampleRecords freshGatherer)
     = Inl (Error ''Target closed'')"
proof -
  let ?index = "indexedNetworkRecords sampleRecords"
  let ?element = "sampleImage ''http://e/a.png'' ''closed''"
  let ?g2 = "freshGatherer\<lparr> env := 4,
        issued := [Evaluate_collectImageElementInfo, DOM_enable, CSS_enable, DOM_getDocument],
        reachedGatheringBudget := (100::nat) \<le> 4 \<rparr>"
  have gone: "reNoNodeFound ''No node with given id found''"
    by (simp add: reNoNodeFound_def regexTest_def dot_def anyChar_def lineTerminator_def)
  have closed: "\<not> reNoNodeFound ''Target closed''"
    by (simp add: reNoNodeFound_def regexTest_def dot_def anyChar_def lineTerminator_def)
  have h1: "pushNodeByPathToFrontend (scriptedBrowser 100 []) ''gone'' (env freshGatherer)
        = (Inl (Error ''No node with given id found''), 1) \<and>
      reNoNodeFound (message (Error ''No node with given id found''))"
    using gone by (simp add: scriptedBrowser_def freshGatherer_def)
  have h3: "pushNodeByPathToFrontend (scriptedBrowser 100 []) ''closed'' (env freshGatherer)
        = (Inl (Error ''Target closed''), 1) \<and>
      \<not> reNoNodeFound (message (Error ''Target closed''))"
    using closed by (simp add: scriptedBrowser_def freshGatherer_def)
  have fails: "fst (fetchSourceRules (scriptedBrowser 100 brokenPage) (devtoolsNodePath (node ?element))
           (withMimeType ?index ?element) (loopStart ?g2)) = Inl (Error ''Target closed'')"
    using closed
    by (simp add: fetchSourceRules_def await_def catchNoNode_def scriptedBrowser_def
        sampleImage_def withMimeType_def)
  have h5: "await (scriptedBrowser 100 brokenPage) Evaluate_collectImageElementInfo
        (collectImageElementInfo (scriptedBrowser 100 brokenPage)) freshGatherer
      = (Inr brokenPage, freshGatherer\<lparr> env := 1, issued := [Evaluate_collectImageElementInfo],
           reachedGatheringBudget := (100::nat) \<le> 1 \<rparr>) \<and>
    promiseAll (scriptedBrowser 100 brokenPage) [DOM_enable, CSS_enable, DOM_getDocument]
        (freshGatherer\<lparr> env := 1, issued := [Evaluate_collectImageElementInfo],
           reachedGatheringBudget := (100::nat) \<le> 1 \<rparr>) = (Inr (), ?g2) \<and>
    sortElements insertionSort ?index brokenPage = [] @ ?element # [] \<and>
    enrichElements (scriptedBrowser 100 brokenPage) ?index [] (loopStart ?g2)
      = (Inr [], loopStart ?g2) \<and>
    \<not> reachedGatheringBudget (loopStart ?g2) \<and> \<not> isInShadowDOM ?element \<and> \<not> isCss ?element \<and>
    fst (fetchSourceRules (scriptedBrowser 100 brokenPage) (devtoolsNodePath (node ?element))
           (withMimeType ?index ?element) (loopStart ?g2)) = Inl (Error ''Target closed'')"
    using fails sampleScan [of 100 brokenPage] sampleEnable [of 100 brokenPage]
    by (simp add: sortElements_def insertionSort_def brokenPage_def loopStart_def sampleImage_def)
  note silent = source_rules_failures
    [of "scriptedBrowser 100 []" "''gone''" freshGatherer "Error ''No node with given id found''" 1
      "sampleImage ''http://e/a.png'' ''gone''", THEN conjunct1]
  note fatal = source_rules_failures
    [of "scriptedBrowser 100 []" "''closed''" freshGatherer "Error ''Target closed''" 1
      "sampleImage ''http://e/a.png'' ''closed''", THEN conjunct2, THEN conjunct2, THEN conjunct1]
  note abort = source_rules_failures
    [where arraySort = insertionSort and driver = "scriptedBrowser 100 brokenPage" and ?g0.0 = freshGatherer
      and elements = brokenPage and networkRecords = sampleRecords and before = "[]"
      and element = ?element and rest = "[]" and before' = "[]" and g = "loopStart ?g2"
      and ?g2.0 = ?g2 and err = "Error ''Target closed''"
      and ?g1.0 = "freshGatherer\<lparr> env := 1, issued := [Evaluate_collectImageElementInfo],
           reachedGatheringBudget := (100::nat) \<le> 1 \<rparr>",
      THEN conjunct2, THEN conjunct2, THEN conjunct2, THEN conjunct2, THEN conjunct1]
  from gone closed mp [OF silent h1] mp [OF fatal h3] mp [OF abort h5]
  show ?thesis by (intro conjI)
qed

subsection \<open>The network index\<close>

text \<open>
  C7 (as amended): a record enters the index exactly when it finished, its status code
  is 200, and its MIME type begins with \<^verbatim>\<open>image\<close> or its URL, as a whole string, ends
  in \<^verbatim>\<open>.avif\<close> or \<^verbatim>\<open>.webp\<close> in any letter case. A record that did not finish never
  enters; a finished record with status 200 whose URL ends in \<^verbatim>\<open>.webp\<close> enters whatever
  its MIME type.
\<close>

theorem network_index_filter:
  "indexedNetworkRecords (records @ [record]) =
     (if finished record \<and> statusCode record = 200 \<and>
         (prefix ''image'' (mimeType record) \<or>
          suffix ''.AVIF'' (map toUpperAscii (url record)) \<or>
          suffix ''.WEBP'' (map toUpperAscii (url record)))
      then (indexedNetworkRecords records)(url record \<mapsto> record)
      else indexedNetworkRecords records) \<and>
   (\<not> finished record \<longrightarrow>
      indexedNetworkRecords (records @ [record]) = indexedNetworkRecords records) \<and>
   (finished record \<and> statusCode record = 200 \<and> suffix ''.webp'' (url record) \<longrightarrow>
      indexedNetworkRecords (records @ [record]) (url record) = Some record)"
  using webp_suffix [of "url record"]
  by (auto simp add: indexedNetworkRecords_snoc indexRecord_def isImage_iff)

theorem network_index_filter_witness:
  "indexedNetworkRecords ([] @ [mislabelledWebp]) (url mislabelledWebp) = Some mislabelledWebp \<and>
   finished mislabelledWebp \<and> statusCode mislabelledWebp = 200 \<and>
   suffix ''.webp'' (url mislabelledWebp) \<and>
   indexedNetworkRecords ([] @ [mislabelledWebp\<lparr> finished := False \<rparr>]) = indexedNetworkRecords []"
proof -
  have s: "suffix ''.webp'' (url mislabelledWebp)"
    by (simp add: mislabelledWebp_def suffix_def)
  have f: "finished mislabelledWebp \<and> statusCode mislabelledWebp = 200"
    by (simp add: mislabelledWebp_def)
  have "\<not> finished (mislabelledWebp\<lparr> finished := False \<rparr>)" by simp
  with s f network_index_filter [of "[]" mislabelledWebp]
    network_index_filter [of "[]" "mislabelledWebp\<lparr> finished := False \<rparr>"]
  show ?thesis by blast
qed

text \<open>
  The claim as worded fails in both directions: a MIME type that begins with
  \<^verbatim>\<open>image\<close> but not with \<^verbatim>\<open>image/\<close> is indexed, and a mislabelled \<^verbatim>\<open>.webp\<close> whose
  URL carries a query string is not.
\<close>

theorem network_index_filter_counterexample:
  "indexedNetworkRecords [misleadingMime] (url misleadingMime) = Some misleadingMime \<and>
   \<not> eligibleAsSpecified misleadingMime \<and>
   indexedNetworkRecords [webpWithQuery] (url webpWithQuery) = None \<and>
   eligibleAsSpecified webpWithQuery"
  by (simp add: indexedNetworkRecords_def indexRecord_def isImage_iff eligibleAsSpecified_def
      urlPath_def misleadingMime_def webpWithQuery_def suffix_rev_prefix toUpperAscii_def)

subsection \<open>The DOM scan\<close>

text \<open>
  C8: the scan returns one record per \<^verbatim>\<open>img\<close> element, in order. For an element with
  no \<^verbatim>\<open>srcset\<close> and no \<^verbatim>\<open>picture\<close> parent the natural size is that of the live
  element, the loop body issues no probe for it, and the natural size is still that of
  the live element when the body has run. For an element with a \<^verbatim>\<open>srcset\<close> or a
  \<^verbatim>\<open>picture\<close> parent the scan leaves both natural dimensions unset, and they are set
  after the loop body only if the body has issued the probe for the element's URL.
\<close>

theorem getHTMLImages_natural_size:
  fixes allElements :: "Element list" and driver :: "'d Driver"
  defines "imgs \<equiv> filter (\<lambda>element. el_localName element = ''img'') allElements"
  shows "length (getHTMLImages allElements) = length imgs \<and>
    (\<forall>i < length imgs.
       (if el_srcset (imgs ! i) = [] \<and> el_parentTagName (imgs ! i) \<noteq> Some ''PICTURE''
        then naturalWidth (getHTMLImages allElements ! i) = Some (el_naturalWidth (imgs ! i)) \<and>
             naturalHeight (getHTMLImages allElements ! i) = Some (el_naturalHeight (imgs ! i)) \<and>
             probes (issued (snd (enrichElement driver index (getHTMLImages allElements ! i) g)))
               = probes (issued g) \<and>
             (\<forall>enriched. fst (enrichElement driver index (getHTMLImages allElements ! i) g) = Inr enriched
                \<longrightarrow> naturalWidth enriched = Some (el_naturalWidth (imgs ! i)) \<and>
                    naturalHeight enriched = Some (el_naturalHeight (imgs ! i)))
        else naturalWidth (getHTMLImages allElements ! i) = None \<and>
             naturalHeight (getHTMLImages allElements ! i) = None \<and>
             (\<forall>enriched. fst (enrichElement driver index (getHTMLImages allElements ! i) g) = Inr enriched \<and>
                (naturalWidth enriched \<noteq> None \<or> naturalHeight enriched \<noteq> None)
                \<longrightarrow> probes (issued (snd (enrichElement driver index (getHTMLImages allElements ! i) g)))
                      = probes (issued g) @ [src (getHTMLImages allElements ! i)])))"
proof (intro conjI allI impI)
  show "length (getHTMLImages allElements) = length imgs"
    by (simp add: getHTMLImages_def imgs_def)
next
  fix i
  assume i: "i < length imgs"
  let ?element = "imgs ! i"
  let ?scanned = "getHTMLImages allElements ! i"
  have nth: "?scanned = htmlImage ?element"
    using i by (simp add: getHTMLImages_def imgs_def)
  show "if el_srcset ?element = [] \<and> el_parentTagName ?element \<noteq> Some ''PICTURE''
        then naturalWidth ?scanned = Some (el_naturalWidth ?element) \<and>
             naturalHeight ?scanned = Some (el_naturalHeight ?element) \<and>
             probes (issued (snd (enrichElement driver index ?scanned g))) = probes (issued g) \<and>
             (\<forall>enriched. fst (enrichElement driver index ?scanned g) = Inr enriched
                \<longrightarrow> naturalWidth enriched = Some (el_naturalWidth ?element) \<and>
                    naturalHeight enriched = Some (el_naturalHeight ?element))
        else naturalWidth ?scanned = None \<and> naturalHeight ?scanned = None \<and>
             (\<forall>enriched. fst (enrichElement driver index ?scanned g) = Inr enriched \<and>
                (naturalWidth enriched \<noteq> None \<or> naturalHeight enriched \<noteq> None)
                \<longrightarrow> probes (issued (snd (enrichElement driver index ?scanned g)))
                      = probes (issued g) @ [src ?scanned])"
  proof (cases "el_srcset ?element = [] \<and> el_parentTagName ?element \<noteq> Some ''PICTURE''")
    case True
    then have plain: "\<not> isCss (htmlImage ?element)" "\<not> isPicture (htmlImage ?element)"
      "srcset (htmlImage ?element) = []"
      by (simp_all add: htmlImage_natural_size)
    have size': "naturalWidth (htmlImage ?element) = Some (el_naturalWidth ?element)"
      "naturalHeight (htmlImage ?element) = Some (el_naturalHeight ?element)"
      using True by (simp_all add: htmlImage_natural_size)
    show ?thesis
      using True enrichElement_no_probe [OF plain] size'
      by (simp add: nth) blast
  next
    case False
    then have unset: "naturalWidth ?scanned = None" "naturalHeight ?scanned = None"
      by (auto simp add: nth htmlImage_natural_size)
    have "probes (issued (snd (enrichElement driver index ?scanned g)))
            = probes (issued g) @ [src ?scanned]"
      if run: "fst (enrichElement driver index ?scanned g) = Inr enriched"
        and set': "naturalWidth enriched \<noteq> None \<or> naturalHeight enriched \<noteq> None"
      for enriched
    proof -
      from run obtain g' where r: "enrichElement driver index ?scanned g = (Inr enriched, g')"
        by (cases "enrichElement driver index ?scanned g") simp
      from set' unset have "naturalWidth enriched \<noteq> naturalWidth ?scanned \<or>
          naturalHeight enriched \<noteq> naturalHeight ?scanned"
        by simp
      from enrichElement_natural_size_by_probe [OF r this] r show ?thesis by simp
    qed
    with False unset show ?thesis by simp
  qed
qed

theorem getHTMLImages_natural_size_witness:
  "length (getHTMLImages sampleDocument) = 3 \<and>
   naturalWidth (getHTMLImages sampleDocument ! 0) = Some 640 \<and>
   naturalHeight (getHTMLImages sampleDocument ! 0) = Some 480 \<and>
   naturalWidth (getHTMLImages sampleDocument ! 1) = None \<and>
   naturalHeight (getHTMLImages sampleDocument ! 2) = None"
proof -
  have imgs: "filter (\<lambda>element. el_localName element = ''img'') sampleDocument =
      [imgTag ''http://e/a.png'' [] ''DIV'', imgTag ''http://e/b.png'' ''http://e/b.png 2x'' ''DIV'',
       imgTag ''http://e/c.png'' [] ''PICTURE'']"
    by (simp add: sampleDocument_def imgTag_def)
  note all = getHTMLImages_natural_size
    [of sampleDocument "scriptedBrowser 1 []" Map.empty freshGatherer, unfolded imgs]
  have len: "length (getHTMLImages sampleDocument) = 3"
    using all [THEN conjunct1] by simp
  have 0: "naturalWidth (getHTMLImages sampleDocument ! 0) = Some 640 \<and>
           naturalHeight (getHTMLImages sampleDocument ! 0) = Some 480"
    using all [THEN conjunct2, rule_format, of 0] by (simp add: imgTag_def)
  have 1: "naturalWidth (getHTMLImages sampleDocument ! 1) = None"
    using all [THEN conjunct2, rule_format, of 1] by (simp add: imgTag_def)
  have 2: "naturalHeight (getHTMLImages sampleDocument ! 2) = None"
    using all [THEN conjunct2, rule_format, of 2] by (simp add: imgTag_def)
  from len 0 1 2 show ?thesis by simp
qed

subsection \<open>Enabling and disabling the protocol domains\<close>

text \<open>
  C9 (as amended): in every pass that completes, the calls issued are the scan, then
  \<^verbatim>\<open>DOM.enable\<close>, \<^verbatim>\<open>CSS.enable\<close> and \<^verbatim>\<open>DOM.getDocument\<close>, then calls that belong
  to single elements, then \<^verbatim>\<open>DOM.disable\<close> and \<^verbatim>\<open>CSS.disable\<close>; each of the four
  enabling and disabling commands is issued exactly once. This includes the passes in
  which the budget expires, as in the sample pass.
\<close>

theorem domains_bracket_the_loop:
  assumes "afterPass arraySort driver networkRecords g = (Inr out, g')"
  shows "\<exists>loopCalls.
     callsSince g g' =
       [Evaluate_collectImageElementInfo, DOM_enable, CSS_enable, DOM_getDocument] @
       loopCalls @ [DOM_disable, CSS_disable] \<and>
     (\<forall>c \<in> set loopCalls. perElementCall c) \<and>
     count_list (callsSince g g') DOM_enable = 1 \<and>
     count_list (callsSince g g') CSS_enable = 1 \<and>
     count_list (callsSince g g') DOM_disable = 1 \<and>
     count_list (callsSince g g') CSS_disable = 1"
proof -
  from afterPass_completed [OF assms] obtain elements g1 g2 g4 where
    scan: "await driver Evaluate_collectImageElementInfo (collectImageElementInfo driver) g
       = (Inr elements, g1)" and
    enable: "promiseAll driver [DOM_enable, CSS_enable, DOM_getDocument] g1 = (Inr (), g2)" and
    loop: "enrichElements driver (indexedNetworkRecords networkRecords)
       (sortElements arraySort (indexedNetworkRecords networkRecords) elements) (loopStart g2) = (Inr out, g4)" and
    disable: "promiseAll driver [DOM_disable, CSS_disable] (logSkipped (length out) g4) = (Inr (), g')"
    by blast
  have i1: "issued g1 = issued g @ [Evaluate_collectImageElementInfo]"
    using await_issued [of driver Evaluate_collectImageElementInfo "collectImageElementInfo driver" g]
      scan by simp
  have i2: "issued g2 = issued g1 @ [DOM_enable, CSS_enable, DOM_getDocument]"
    using promiseAll_issued [of driver "[DOM_enable, CSS_enable, DOM_getDocument]" g1] enable
    by simp
  from enrichElements_calls [of driver "indexedNetworkRecords networkRecords"
      "sortElements arraySort (indexedNetworkRecords networkRecords) elements" "loopStart g2"] loop
  obtain loopCalls where i4: "issued g4 = issued g2 @ loopCalls"
    and per: "\<forall>c \<in> set loopCalls. perElementCall c"
    by (auto simp add: loopStart_def)
  have i5: "issued g' = issued g4 @ [DOM_disable, CSS_disable]"
    using promiseAll_issued [of driver "[DOM_disable, CSS_disable]" "logSkipped (length out) g4"]
      disable by (simp add: logSkipped_def)
  have all: "callsSince g g' =
      [Evaluate_collectImageElementInfo, DOM_enable, CSS_enable, DOM_getDocument] @
      loopCalls @ [DOM_disable, CSS_disable]"
    by (rule callsSince_append) (simp add: i1 i2 i4 i5)
  have zero: "count_list loopCalls DOM_enable = 0" "count_list loopCalls CSS_enable = 0"
    "count_list loopCalls DOM_disable = 0" "count_list loopCalls CSS_disable = 0"
    using per by (simp_all add: count_list_per_element)
  have "count_list (callsSince g g') DOM_enable = 1 \<and>
     count_list (callsSince g g') CSS_enable = 1 \<and>
     count_list (callsSince g g') DOM_disable = 1 \<and>
     count_list (callsSince g g') CSS_disable = 1"
    unfolding all by (simp add: zero)
  with all per show ?thesis by blast
qed

theorem domains_bracket_the_loop_witness:
  "(\<exists>out g'. afterPass insertionSort (scriptedBrowser 6 samplePage) sampleRecords freshGatherer = (Inr out, g') \<and>
      reachedGatheringBudget g' \<and> skippedCount g' = 1 \<and>
      count_list (callsSince freshGatherer g') DOM_enable = 1 \<and>
      count_list (callsSince freshGatherer g') CSS_enable = 1 \<and>
      count_list (callsSince freshGatherer g') DOM_disable = 1 \<and>
      count_list (callsSince freshGatherer g') CSS_disable = 1 \<and>
      last (callsSince freshGatherer g') = CSS_disable)"
proof -
  obtain out g' where pass:
    "afterPass insertionSort (scriptedBrowser 6 samplePage) sampleRecords freshGatherer = (Inr out, g')"
    and budget: "reachedGatheringBudget g'" "skippedCount g' = 1"
    using samplePass by simp
  from domains_bracket_the_loop [OF pass] obtain loopCalls where
    "callsSince freshGatherer g' =
       [Evaluate_collectImageElementInfo, DOM_enable, CSS_enable, DOM_getDocument] @
       loopCalls @ [DOM_disable, CSS_disable]"
    "count_list (callsSince freshGatherer g') DOM_enable = 1"
    "count_list (callsSince freshGatherer g') CSS_enable = 1"
    "count_list (callsSince freshGatherer g') DOM_disable = 1"
    "count_list (callsSince freshGatherer g') CSS_disable = 1"
    by blast
  with pass budget show ?thesis by simp
qed

text \<open>
  The claim as worded speaks of every pass. A pass that a protocol error aborts has
  enabled both domains and disables neither.
\<close>

theorem domains_left_enabled_counterexample:
  "fst (afterPass insertionSort (scriptedBrowser 100 brokenPage) sampleRecords freshGatherer)
     = Inl (Error ''Target closed'') \<and>
   count_list (issued (snd (afterPass insertionSort (scriptedBrowser 100 brokenPage) sampleRecords freshGatherer)))
     DOM_enable = 1 \<and>
   count_list (issued (snd (afterPass insertionSort (scriptedBrowser 100 brokenPage) sampleRecords freshGatherer)))
     CSS_enable = 1 \<and>
   count_list (issued (snd (afterPass insertionSort (scriptedBrowser 100 brokenPage) sampleRecords freshGatherer)))
     DOM_disable = 0 \<and>
   count_list (issued (snd (afterPass insertionSort (scriptedBrowser 100 brokenPage) sampleRecords freshGatherer)))
     CSS_disable = 0"
  unfolding brokenPass by simp

subsection \<open>Elements the CSS sizing resolver never sees\<close>

text \<open>
  C10: for an element inside a shadow DOM, or a CSS background image, the loop body
  issues neither of the two calls of the CSS sizing resolver and leaves
  \<^verbatim>\<open>cssWidth\<close>, \<^verbatim>\<open>cssHeight\<close> and the structured sizing pair as they were. So
  every such element of a list comes out of the loop with these fields as they went in,
  and a loop over such elements only issues no call of the resolver at all.
\<close>

theorem css_sizing_skips_shadow_and_background:
  "(isInShadowDOM element \<or> isCss element \<longrightarrow>
      (\<forall>c \<in> set (callsSince g (snd (enrichElement driver index element g))).
         \<not> sourceRulesCall c) \<and>
      (\<forall>element'. fst (enrichElement driver index element g) = Inr element' \<longrightarrow>
         cssWidth element' = cssWidth element \<and> cssHeight element' = cssHeight element \<and>
         privateCssSizing element' = privateCssSizing element)) \<and>
   (enrichElements driver index elements g = (Inr out, g') \<longrightarrow>
      length out = length elements \<and>
      (\<forall>i < length elements.
         isInShadowDOM (elements ! i) \<or> isCss (elements ! i) \<longrightarrow>
           cssWidth (out ! i) = cssWidth (elements ! i) \<and>
           cssHeight (out ! i) = cssHeight (elements ! i) \<and>
           privateCssSizing (out ! i) = privateCssSizing (elements ! i))) \<and>
   ((\<forall>e \<in> set elements. isInShadowDOM e \<or> isCss e) \<longrightarrow>
      (\<forall>c \<in> set (callsSince g (snd (enrichElements driver index elements g))).
         \<not> sourceRulesCall c))"
proof -
  have body: "isInShadowDOM element \<or> isCss element \<longrightarrow>
      (\<forall>c \<in> set (callsSince g (snd (enrichElement driver index element g))).
         \<not> sourceRulesCall c) \<and>
      (\<forall>element'. fst (enrichElement driver index element g) = Inr element' \<longrightarrow>
         cssWidth element' = cssWidth element \<and> cssHeight element' = cssHeight element \<and>
         privateCssSizing element' = privateCssSizing element)"
  proof
    assume skip: "isInShadowDOM element \<or> isCss element"
    from enrichElement_calls [of driver index element g] skip
    obtain calls where c: "issued (snd (enrichElement driver index element g)) = issued g @ calls"
      "\<forall>c \<in> set calls. \<not> sourceRulesCall c"
      by auto
    have calls: "\<forall>c \<in> set (callsSince g (snd (enrichElement driver index element g))).
        \<not> sourceRulesCall c"
      using callsSince_append [OF c(1)] c(2) by simp
    have kept: "cssWidth element' = cssWidth element \<and> cssHeight element' = cssHeight element \<and>
        privateCssSizing element' = privateCssSizing element"
      if "fst (enrichElement driver index element g) = Inr element'" for element'
    proof -
      from that obtain g1 where "enrichElement driver index element g = (Inr element', g1)"
        by (cases "enrichElement driver index element g") simp
      from enrichElement_keeps(4) [OF this skip] show ?thesis .
    qed
    from calls kept show "(\<forall>c \<in> set (callsSince g (snd (enrichElement driver index element g))).
         \<not> sourceRulesCall c) \<and>
      (\<forall>element'. fst (enrichElement driver index element g) = Inr element' \<longrightarrow>
         cssWidth element' = cssWidth element \<and> cssHeight element' = cssHeight element \<and>
         privateCssSizing element' = privateCssSizing element)"
      by blast
  qed
  have loop: "enrichElements driver index elements g = (Inr out, g') \<longrightarrow>
      length out = length elements \<and>
      (\<forall>i < length elements.
         isInShadowDOM (elements ! i) \<or> isCss (elements ! i) \<longrightarrow>
           cssWidth (out ! i) = cssWidth (elements ! i) \<and>
           cssHeight (out ! i) = cssHeight (elements ! i) \<and>
           privateCssSizing (out ! i) = privateCssSizing (elements ! i))"
  proof
    assume "enrichElements driver index elements g = (Inr out, g')"
    from enrichElements_keeps [OF this]
    have "list_all2 (\<lambda>e e'. isInShadowDOM e \<or> isCss e \<longrightarrow>
                  cssWidth e' = cssWidth e \<and> cssHeight e' = cssHeight e \<and>
                  privateCssSizing e' = privateCssSizing e) elements out"
      by simp
    then show "length out = length elements \<and>
      (\<forall>i < length elements.
         isInShadowDOM (elements ! i) \<or> isCss (elements ! i) \<longrightarrow>
           cssWidth (out ! i) = cssWidth (elements ! i) \<and>
           cssHeight (out ! i) = cssHeight (elements ! i) \<and>
           privateCssSizing (out ! i) = privateCssSizing (elements ! i))"
      by (simp add: list_all2_conv_all_nth)
  qed
  have calls: "(\<forall>e \<in> set elements. isInShadowDOM e \<or> isCss e) \<longrightarrow>
      (\<forall>c \<in> set (callsSince g (snd (enrichElements driver index elements g))).
         \<not> sourceRulesCall c)"
  proof
    assume all: "\<forall>e \<in> set elements. isInShadowDOM e \<or> isCss e"
    from enrichElements_calls [of driver index elements g] all
    obtain calls where c: "issued (snd (enrichElements driver index elements g)) = issued g @ calls"
      "\<forall>c \<in> set calls. \<not> sourceRulesCall c"
      by auto
    show "\<forall>c \<in> set (callsSince g (snd (enrichElements driver index elements g))).
         \<not> sourceRulesCall c"
      using callsSince_append [OF c(1)] c(2) by simp
  qed
  show ?thesis by (rule conjI [OF body conjI [OF loop calls]])
qed

theorem css_sizing_skips_shadow_and_background_witness:
  "isCss (sampleBackground ''http://e/b.jpg'' ''1,HTML,1,BODY,1,DIV'') \<and>
   DOM_pushNodeByPathToFrontend ''1,HTML,1,BODY,1,DIV'' \<notin>
     set (callsSince freshGatherer (snd (enrichElement (scriptedBrowser 100 []) Map.empty
            (sampleBackground ''http://e/b.jpg'' ''1,HTML,1,BODY,1,DIV'') freshGatherer))) \<and>
   (\<exists>element'. fst (enrichElement (scriptedBrowser 100 []) Map.empty
            (sampleBackground ''http://e/b.jpg'' ''1,HTML,1,BODY,1,DIV'') freshGatherer) = Inr element' \<and>
      naturalWidth element' = Some 640 \<and> cssWidth element' = None \<and>
      privateCssSizing element' = None) \<and>
   (\<exists>out g'. enrichElements (scriptedBrowser 100 []) Map.empty
            [sampleBackground ''http://e/b.jpg'' ''1,HTML,1,BODY,1,DIV''] freshGatherer = (Inr out, g') \<and>
      length out = 1 \<and> cssHeight (out ! 0) = None \<and>
      CSS_getMatchedStylesForNode 7 \<notin> set (callsSince freshGatherer g'))"
proof -
  let ?element = "sampleBackground ''http://e/b.jpg'' ''1,HTML,1,BODY,1,DIV''"
  let ?run = "enrichElement (scriptedBrowser 100 []) Map.empty ?element freshGatherer"
  let ?loop = "enrichElements (scriptedBrowser 100 []) Map.empty [?element] freshGatherer"
  have css: "isInShadowDOM ?element \<or> isCss ?element"
    by (simp add: sampleBackground_def sampleImage_def)
  have fields: "cssWidth ?element = None" "cssHeight ?element = None"
    "privateCssSizing ?element = None" "isCss ?element"
    by (simp_all add: sampleBackground_def sampleImage_def)
  obtain element' g1 where run: "?run = (Inr element', g1)" and natural: "naturalWidth element' = Some 640"
    by (simp add: enrichElement_def fetchElementWithSizeInformation_def await_def
        setNextProtocolTimeout_def assignSize_def Let_def scriptedBrowser_def freshGatherer_def
        sampleBackground_def sampleImage_def)
  then have loop: "?loop = (Inr [element'], g1)" by simp
  note t = css_sizing_skips_shadow_and_background
    [of ?element freshGatherer "scriptedBrowser 100 []" Map.empty "[?element]" "[element']" g1]
  from t css have body: "\<forall>c \<in> set (callsSince freshGatherer (snd ?run)). \<not> sourceRulesCall c"
    and kept: "\<forall>e. fst ?run = Inr e \<longrightarrow> cssWidth e = cssWidth ?element \<and>
       cssHeight e = cssHeight ?element \<and> privateCssSizing e = privateCssSizing ?element"
    by blast+
  from t loop have out: "length [element'] = length [?element]"
    "\<forall>i < length [?element]. isInShadowDOM ([?element] ! i) \<or> isCss ([?element] ! i) \<longrightarrow>
        cssHeight ([element'] ! i) = cssHeight ([?element] ! i)"
    by blast+
  from t css have none: "\<forall>c \<in> set (callsSince freshGatherer (snd ?loop)). \<not> sourceRulesCall c"
    by simp
  have 1: "DOM_pushNodeByPathToFrontend ''1,HTML,1,BODY,1,DIV'' \<notin>
      set (callsSince freshGatherer (snd ?run))"
    using body by fastforce
  have 2: "cssWidth element' = None \<and> privateCssSizing element' = None"
    using kept run fields by simp
  have 3: "cssHeight ([element'] ! 0) = None"
    using out(2) css fields by simp
  have 4: "CSS_getMatchedStylesForNode 7 \<notin> set (callsSince freshGatherer g1)"
    using none loop by fastforce
  from fields(4) 1 run natural 2 loop 3 4 show ?thesis by simp
qed

end
